theory Spec2Isabelle
  imports Complex_Main "HOL-Library.Sublist"
begin

section \<open>SimpleCircuitBreaker\<close>

text \<open>
  The class \<^verbatim>\<open>SimpleCircuitBreaker\<close> of the batch processor. Its fields are JavaScript
  numbers holding integers (a counter, millisecond time stamps); \<^verbatim>\<open>lastFailure\<close> starts
  as \<^verbatim>\<open>null\<close>. \<^verbatim>\<open>Date.now()\<close> is passed to each method as the argument \<open>now\<close>.
\<close>

record SimpleCircuitBreaker =
  failures :: int
  lastFailure :: "int option"
  threshold :: int
  cooldownMs :: int
  totalBreaks :: int

definition SimpleCircuitBreaker_new :: "int \<Rightarrow> int \<Rightarrow> SimpleCircuitBreaker" where
  "SimpleCircuitBreaker_new thr cd =
     \<lparr>failures = 0, lastFailure = None, threshold = thr, cooldownMs = cd, totalBreaks = 0\<rparr>"

text \<open>
  In \<^verbatim>\<open>Date.now() - this.lastFailure\<close> a \<^verbatim>\<open>lastFailure\<close> that is still \<^verbatim>\<open>null\<close> converts
  to 0.
\<close>

definition canProceed :: "int \<Rightarrow> SimpleCircuitBreaker \<Rightarrow> bool \<times> SimpleCircuitBreaker" where
  "canProceed now b =
     (if failures b < threshold b then (True, b)
      else (let timeSinceFailure = now - (case lastFailure b of None \<Rightarrow> 0 | Some t \<Rightarrow> t)
            in if timeSinceFailure > cooldownMs b then (True, b\<lparr>failures := 0\<rparr>)
               else (False, b)))"

definition recordFailure :: "int \<Rightarrow> SimpleCircuitBreaker \<Rightarrow> SimpleCircuitBreaker" where
  "recordFailure now b =
     (let b1 = b\<lparr>failures := failures b + 1, lastFailure := Some now\<rparr>
      in if failures b1 \<ge> threshold b1 then b1\<lparr>totalBreaks := totalBreaks b1 + 1\<rparr> else b1)"

definition recordSuccess :: "SimpleCircuitBreaker \<Rightarrow> SimpleCircuitBreaker" where
  "recordSuccess b = (if failures b > 0 then b\<lparr>failures := 0\<rparr> else b)"

text \<open>A run of consecutive \<^verbatim>\<open>recordFailure()\<close> calls, one per clock reading, oldest first.\<close>

definition recordFailures :: "int list \<Rightarrow> SimpleCircuitBreaker \<Rightarrow> SimpleCircuitBreaker" where
  "recordFailures ts b = fold recordFailure ts b"


section \<open>RateLimiter (token bucket)\<close>

text \<open>
  The class \<^verbatim>\<open>RateLimiter\<close>. \<^verbatim>\<open>tokens\<close> and the wait times are JavaScript doubles,
  modelled as real numbers; the clock is in integer milliseconds.
\<close>

record RateLimiter =
  rpm :: real
  tokens :: real
  lastRefill :: int
  totalRequests :: int
  totalWaitTime :: real

definition RateLimiter_new :: "real \<Rightarrow> int \<Rightarrow> RateLimiter" where
  "RateLimiter_new requestsPerMinute now =
     \<lparr>rpm = requestsPerMinute, tokens = requestsPerMinute, lastRefill = now,
      totalRequests = 0, totalWaitTime = 0\<rparr>"

text \<open>The first three statements of \<^verbatim>\<open>acquire()\<close>: the refill and the time stamp.\<close>

definition refill :: "int \<Rightarrow> RateLimiter \<Rightarrow> RateLimiter" where
  "refill now r =
     (let elapsed = now - lastRefill r;
          tokensToAdd = (real_of_int elapsed / 60000) * rpm r;
          r1 = r\<lparr>tokens := min (rpm r) (tokens r + tokensToAdd)\<rparr>
      in if elapsed \<ge> 1000 then r1\<lparr>lastRefill := now\<rparr> else r1)"

text \<open>
  \<^verbatim>\<open>acquire()\<close> up to its \<^verbatim>\<open>await sleep(waitTime)\<close>: the result is the state and
  \<open>None\<close> when a token was taken at once, \<open>Some waitTime\<close> when the caller sleeps.
  (For \<^verbatim>\<open>rpm\<close> 0 the wait time is \<^verbatim>\<open>Infinity\<close> in JavaScript and 0 here; no property
  below depends on the wait time.)
\<close>

definition acquire :: "int \<Rightarrow> RateLimiter \<Rightarrow> RateLimiter \<times> real option" where
  "acquire now r =
     (let r1 = refill now r
      in if tokens r1 \<ge> 1
         then (r1\<lparr>tokens := tokens r1 - 1, totalRequests := totalRequests r1 + 1\<rparr>, None)
         else (let waitTime = ((1 - tokens r1) / rpm r1) * 60000
               in (r1\<lparr>totalWaitTime := totalWaitTime r1 + waitTime\<rparr>, Some waitTime)))"

text \<open>The two statements of \<^verbatim>\<open>acquire()\<close> after the sleep.\<close>

definition acquire_resume :: "RateLimiter \<Rightarrow> RateLimiter" where
  "acquire_resume r = r\<lparr>tokens := 0, totalRequests := totalRequests r + 1\<rparr>"

text \<open>One whole \<^verbatim>\<open>acquire()\<close> of a caller that is alone on the limiter.\<close>

definition acquire_whole :: "int \<Rightarrow> RateLimiter \<Rightarrow> RateLimiter" where
  "acquire_whole now r =
     (case acquire now r of (r1, None) \<Rightarrow> r1 | (r1, Some w) \<Rightarrow> acquire_resume r1)"

text \<open>The tokens that the refill of a call at time \<open>now\<close> adds to the bucket.\<close>

definition credited :: "int \<Rightarrow> RateLimiter \<Rightarrow> real" where
  "credited now r = tokens (refill now r) - tokens r"

text \<open>The tokens credited in total by successive calls at the given times.\<close>

fun total_credited :: "int list \<Rightarrow> RateLimiter \<Rightarrow> real" where
  "total_credited [] r = 0"
| "total_credited (now # ts) r = credited now r + total_credited ts (acquire_whole now r)"

section \<open>UploadLimiter\<close>

text \<open>
  The class \<^verbatim>\<open>UploadLimiter\<close>. The field \<^verbatim>\<open>max\<close> is named \<open>maxUpload\<close> (as in
  \<^verbatim>\<open>getStats\<close>) and the field \<^verbatim>\<open>queue\<close> is named \<open>uqueue\<close>. A queued \<^verbatim>\<open>resolve\<close>
  callback is identified by the number of the caller that waits on it.
\<close>

record UploadLimiter =
  maxUpload :: int
  baseTimeout :: real
  fallbackConcurrency :: int
  uploading :: int
  uqueue :: "nat list"
  recentUploadTimes :: "real list"
  totalUploads :: int
  slowConnectionDetected :: bool

definition UploadLimiter_new :: "int \<Rightarrow> real \<Rightarrow> int \<Rightarrow> UploadLimiter" where
  "UploadLimiter_new maxU baseTimeoutMs fallbackC =
     \<lparr>maxUpload = maxU, baseTimeout = baseTimeoutMs, fallbackConcurrency = fallbackC,
      uploading = 0, uqueue = [], recentUploadTimes = [], totalUploads = 0,
      slowConnectionDetected = False\<rparr>"

text \<open>\<^verbatim>\<open>xs.slice(-n)\<close>: the last \<open>n\<close> elements, all of them when there are fewer.\<close>

definition slice_last :: "nat \<Rightarrow> 'a list \<Rightarrow> 'a list" where
  "slice_last n xs = drop (length xs - n) xs"

text \<open>
  \<^verbatim>\<open>releaseUploadSlot()\<close>: the second component is the caller whose \<^verbatim>\<open>resolve\<close> was
  shifted off the queue and called, if there was one.
\<close>

definition releaseUploadSlot :: "UploadLimiter \<Rightarrow> UploadLimiter \<times> nat option" where
  "releaseUploadSlot u =
     (case uqueue u of
        [] \<Rightarrow> (u\<lparr>uploading := uploading u - 1\<rparr>, None)
      | w # ws \<Rightarrow> (u\<lparr>uploading := uploading u - 1, uqueue := ws\<rparr>, Some w))"

definition getAdaptiveTimeout :: "UploadLimiter \<Rightarrow> real" where
  "getAdaptiveTimeout u =
     (if length (recentUploadTimes u) < 3 then baseTimeout u
      else (let last5 = slice_last 5 (recentUploadTimes u);
                avg = sum_list last5 / real (length last5)
            in max (baseTimeout u) (min (avg * 2) 60000)))"

definition recordUploadTime :: "real \<Rightarrow> UploadLimiter \<Rightarrow> UploadLimiter" where
  "recordUploadTime durationMs u =
     (let pushed = recentUploadTimes u @ [durationMs];
          times = (if length pushed > 10 then tl pushed else pushed);
          u1 = u\<lparr>recentUploadTimes := times\<rparr>
      in if length times \<ge> 3 then
           (let avg = sum_list (slice_last 3 times) / 3
            in if avg > 20000 \<and> \<not> slowConnectionDetected u1
               then u1\<lparr>slowConnectionDetected := True, maxUpload := fallbackConcurrency u1\<rparr>
               else if avg < 15000 \<and> slowConnectionDetected u1
               then u1\<lparr>slowConnectionDetected := False,
                       maxUpload := fallbackConcurrency u1 + 1\<rparr>
               else u1)
         else u1)"

text \<open>
  One invocation of \<^verbatim>\<open>wrapFetch\<close> after \<^verbatim>\<open>acquireUploadSlot()\<close> has returned. Its local
  variables are a record; \<open>timerPending\<close> says that the \<^verbatim>\<open>setTimeout\<close> callback has
  neither run nor been cleared, \<open>fetchPending\<close> that the promise of \<^verbatim>\<open>fetch\<close> has not
  settled. \<open>wokenU\<close> lists the waiters whose \<^verbatim>\<open>resolve\<close> has been called.
\<close>

record wrapFetch_call =
  startTime :: int
  timeout :: real
  slotReleased :: bool
  timerPending :: bool
  fetchPending :: bool

record wrapFetch_state =
  wcall :: wrapFetch_call
  limiterU :: UploadLimiter
  wokenU :: "nat list"

definition wrapFetch_begin :: "int \<Rightarrow> UploadLimiter \<Rightarrow> wrapFetch_state" where
  "wrapFetch_begin now u =
     \<lparr>wcall = \<lparr>startTime = now, timeout = getAdaptiveTimeout u, slotReleased = False,
               timerPending = True, fetchPending = True\<rparr>,
      limiterU = u, wokenU = []\<rparr>"

text \<open>
  The block \<^verbatim>\<open>if (!slotReleased) { slotReleased = true; this.releaseUploadSlot();
  this.totalUploads++; }\<close> that the timeout callback, the normal path and the error
  path share.
\<close>

definition release_once :: "wrapFetch_state \<Rightarrow> wrapFetch_state" where
  "release_once s =
     (if \<not> slotReleased (wcall s) then
        (case releaseUploadSlot (limiterU s) of
           (u1, w) \<Rightarrow>
             s\<lparr>wcall := (wcall s)\<lparr>slotReleased := True\<rparr>,
               limiterU := u1\<lparr>totalUploads := totalUploads u1 + 1\<rparr>,
               wokenU := wokenU s @ (case w of None \<Rightarrow> [] | Some t \<Rightarrow> [t])\<rparr>)
      else s)"

text \<open>
  What can happen to a pending invocation: the timer fires, \<^verbatim>\<open>fetch\<close> resolves (the
  argument is \<^verbatim>\<open>Date.now()\<close> at that moment), or \<^verbatim>\<open>fetch\<close> rejects.
\<close>

datatype wf_event = TimeoutFires | FetchResolves int | FetchRejects

definition clearTimeout :: "wrapFetch_state \<Rightarrow> wrapFetch_state" where
  "clearTimeout s = s\<lparr>wcall := (wcall s)\<lparr>timerPending := False\<rparr>\<rparr>"

fun wf_step :: "wf_event \<Rightarrow> wrapFetch_state \<Rightarrow> wrapFetch_state option" where
  "wf_step TimeoutFires s =
     (if timerPending (wcall s)
      then Some (release_once (s\<lparr>wcall := (wcall s)\<lparr>timerPending := False\<rparr>\<rparr>))
      else None)"
| "wf_step (FetchResolves now) s =
     (if fetchPending (wcall s) then
        (let uploadDuration = now - startTime (wcall s);
             s1 = clearTimeout (s\<lparr>wcall := (wcall s)\<lparr>fetchPending := False\<rparr>\<rparr>);
             s2 = release_once s1
         in Some (s2\<lparr>limiterU :=
                    recordUploadTime (min (real_of_int uploadDuration) (timeout (wcall s2)))
                      (limiterU s2)\<rparr>))
      else None)"
| "wf_step FetchRejects s =
     (if fetchPending (wcall s) then
        Some (release_once (clearTimeout (s\<lparr>wcall := (wcall s)\<lparr>fetchPending := False\<rparr>\<rparr>)))
      else None)"

fun wf_run :: "wf_event list \<Rightarrow> wrapFetch_state \<Rightarrow> wrapFetch_state option" where
  "wf_run [] s = Some s"
| "wf_run (e # es) s = (case wf_step e s of None \<Rightarrow> None | Some s1 \<Rightarrow> wf_run es s1)"


section \<open>ConcurrencyLimiter\<close>

text \<open>
  The class \<^verbatim>\<open>ConcurrencyLimiter\<close>; its field \<^verbatim>\<open>max\<close> is named \<open>maxConcurrent\<close>, as
  the constructor's parameter. A queued \<^verbatim>\<open>resolve\<close> callback is identified by the
  number of the task whose \<^verbatim>\<open>run\<close> call waits on it.
\<close>

record ConcurrencyLimiter =
  maxConcurrent :: int
  running :: int
  queue :: "nat list"
  totalExecuted :: int

definition ConcurrencyLimiter_new :: "int \<Rightarrow> ConcurrencyLimiter" where
  "ConcurrencyLimiter_new m = \<lparr>maxConcurrent = m, running = 0, queue = [], totalExecuted = 0\<rparr>"

text \<open>
  The limiter together with the tasks around it, between two turns of the event loop:
  \<open>woken\<close> are the waiters whose \<^verbatim>\<open>resolve\<close> has been called and whose \<^verbatim>\<open>run\<close> has not
  resumed yet, in the order of the calls (the order in which their continuations are
  queued); \<open>active\<close> are the tasks between \<^verbatim>\<open>this.running++\<close> and the \<^verbatim>\<open>finally\<close> block;
  \<open>completed\<close> those whose \<^verbatim>\<open>run\<close> has settled. \<open>arrived\<close> and \<open>acquired\<close> record the
  order of the \<^verbatim>\<open>run\<close> calls and the order in which tasks passed \<^verbatim>\<open>this.running++\<close>.
\<close>

record CLsystem =
  limiter :: ConcurrencyLimiter
  woken :: "nat list"
  active :: "nat list"
  completed :: "nat list"
  arrived :: "nat list"
  acquired :: "nat list"

definition CLsystem_new :: "int \<Rightarrow> CLsystem" where
  "CLsystem_new m =
     \<lparr>limiter = ConcurrencyLimiter_new m, woken = [], active = [], completed = [],
      arrived = [], acquired = []\<rparr>"

text \<open>
  One pass through \<^verbatim>\<open>while (this.running >= this.max) await new Promise(...)\<close> followed,
  when the loop is left, by \<^verbatim>\<open>this.running++\<close> and the call of \<^verbatim>\<open>fn\<close>.
\<close>

definition try_enter :: "nat \<Rightarrow> CLsystem \<Rightarrow> CLsystem" where
  "try_enter t s =
     (let l = limiter s
      in if running l \<ge> maxConcurrent l
         then s\<lparr>limiter := l\<lparr>queue := queue l @ [t]\<rparr>\<rparr>
         else s\<lparr>limiter := l\<lparr>running := running l + 1\<rparr>,
                active := active s @ [t], acquired := acquired s @ [t]\<rparr>)"

text \<open>
  The rest of \<^verbatim>\<open>run\<close> once \<^verbatim>\<open>fn()\<close> has settled; \<open>ok\<close> says that it resolved. Only then
  is \<^verbatim>\<open>totalExecuted\<close> incremented; the \<^verbatim>\<open>finally\<close> block runs in both cases.
\<close>

definition leave :: "nat \<Rightarrow> bool \<Rightarrow> CLsystem \<Rightarrow> CLsystem" where
  "leave t ok s =
     (let l0 = limiter s;
          l1 = (if ok then l0\<lparr>totalExecuted := totalExecuted l0 + 1\<rparr> else l0);
          l2 = l1\<lparr>running := running l1 - 1\<rparr>;
          s1 = s\<lparr>active := removeAll t (active s), completed := completed s @ [t]\<rparr>
      in case queue l2 of
           [] \<Rightarrow> s1\<lparr>limiter := l2\<rparr>
         | w # ws \<Rightarrow> s1\<lparr>limiter := l2\<lparr>queue := ws\<rparr>, woken := woken s1 @ [w]\<rparr>)"

text \<open>
  The turns of the event loop that touch the limiter: a new task calls \<^verbatim>\<open>run\<close>; the
  longest-woken waiter resumes in its \<^verbatim>\<open>while\<close> loop; the \<^verbatim>\<open>fn()\<close> of an active task
  settles. A turn that cannot happen in the state gives \<open>None\<close>. The resumption of a
  woken waiter is a job that \<^verbatim>\<open>resolve()\<close> puts at the end of the microtask queue, so
  code already queued there (a reaction to the promise whose settling ended the task,
  say) runs first and may call \<^verbatim>\<open>run\<close>.
\<close>

datatype cl_event = Call nat | Resume | Finish nat bool

fun cl_step :: "cl_event \<Rightarrow> CLsystem \<Rightarrow> CLsystem option" where
  "cl_step (Call t) s =
     (if t \<in> set (arrived s) then None
      else Some (try_enter t (s\<lparr>arrived := arrived s @ [t]\<rparr>)))"
| "cl_step Resume s =
     (case woken s of [] \<Rightarrow> None | t # ts \<Rightarrow> Some (try_enter t (s\<lparr>woken := ts\<rparr>)))"
| "cl_step (Finish t ok) s =
     (if t \<in> set (active s) then Some (leave t ok s) else None)"

fun cl_run :: "cl_event list \<Rightarrow> CLsystem \<Rightarrow> CLsystem option" where
  "cl_run [] s = Some s"
| "cl_run (e # es) s = (case cl_step e s of None \<Rightarrow> None | Some s1 \<Rightarrow> cl_run es s1)"

text \<open>
  A run in which no new task calls \<^verbatim>\<open>run\<close> while a woken waiter has not resumed yet, as
  when every task is submitted in one synchronous loop (\<^verbatim>\<open>prompts.map\<close> in \<^verbatim>\<open>main\<close>).
\<close>

fun no_late_call :: "cl_event list \<Rightarrow> CLsystem \<Rightarrow> bool" where
  "no_late_call [] s = True"
| "no_late_call (e # es) s =
     ((case e of Call t \<Rightarrow> woken s = [] | _ \<Rightarrow> True) \<and>
      (case cl_step e s of None \<Rightarrow> True | Some s1 \<Rightarrow> no_late_call es s1))"

fun is_call :: "cl_event \<Rightarrow> bool" where
  "is_call (Call t) = True"
| "is_call e = False"

text \<open>The tasks that have called \<^verbatim>\<open>run\<close> and whose call has not settled.\<close>

definition pending :: "CLsystem \<Rightarrow> nat list" where
  "pending s = active s @ woken s @ queue (limiter s)"

definition work_left :: "CLsystem \<Rightarrow> nat" where
  "work_left s = 2 * length (active s) + 3 * length (woken s) + 2 * length (queue (limiter s))"


section \<open>Strings\<close>

text \<open>
  JavaScript strings are modelled as lists of characters. \<^verbatim>\<open>s.includes(sub)\<close>,
  \<^verbatim>\<open>s.toLowerCase()\<close> on the letters A to Z, and the decimal digits that a template
  literal prints for a non-negative integer. \<^verbatim>\<open>s.substring(0, n)\<close> is \<open>take n s\<close>.
\<close>

fun includes_str :: "string \<Rightarrow> string \<Rightarrow> bool" where
  "includes_str [] sub = (sub = [])"
| "includes_str (c # cs) sub = (prefix sub (c # cs) \<or> includes_str cs sub)"

definition lowerChar :: "char \<Rightarrow> char" where
  "lowerChar c =
     (let n = (of_char c :: nat) in if 65 \<le> n \<and> n \<le> 90 then char_of (n + 32) else c)"

definition toLowerCase :: "string \<Rightarrow> string" where
  "toLowerCase s = map lowerChar s"

definition digit :: "nat \<Rightarrow> char" where
  "digit d = char_of (48 + d)"

fun show_nat :: "nat \<Rightarrow> string" where
  "show_nat n = (if n < 10 then [digit n] else show_nat (n div 10) @ [digit (n mod 10)])"

declare show_nat.simps [simp del]

text \<open>The digits of an integer, as in an error message that prints a number.\<close>

definition show_int :: "int \<Rightarrow> string" where
  "show_int i = (if i < 0 then ''-'' @ show_nat (nat (- i)) else show_nat (nat i))"

section \<open>The job pipeline: processPrompt\<close>

subsection \<open>Data\<close>

type_synonym url = string

text \<open>
  The fields of an Airtable record that \<^verbatim>\<open>processPrompt\<close> reads; a missing field is
  \<open>None\<close>. An attachment is represented by its \<^verbatim>\<open>url\<close>.
\<close>

record PromptRecord =
  rec_id :: string
  Prompt :: "string option"
  Video_Prompt :: "string option"
  Generated_Images :: "url list option"
  Prompt_Image :: "url list option"

record GenConfig =
  numImages :: int
  imageSize :: string
  enableNSFW :: bool
  enableVideo :: bool
  videoDuration :: int
  geminiApiKey :: "string option"
  geminiPromptTemplate :: string
  downloadsDir :: string

text \<open>JavaScript truthiness of an optional string: defined and not empty.\<close>

definition truthy :: "string option \<Rightarrow> bool" where
  "truthy s = (case s of None \<Rightarrow> False | Some t \<Rightarrow> t \<noteq> [])"

text \<open>A value written to a field of the store.\<close>

datatype fval = FNull | FText string | FUrls "url list"

text \<open>
  The calls that leave the process, in the order in which \<^verbatim>\<open>processPrompt\<close> makes them:
  \<^verbatim>\<open>geminiLimiter.acquire()\<close>, \<^verbatim>\<open>analyzeImageWithGemini\<close>, \<^verbatim>\<open>updateAirtableRecord\<close>,
  \<^verbatim>\<open>fetch\<close> of the prompt image, \<^verbatim>\<open>api.generate\<close> (with the prompt and the reference
  images), \<^verbatim>\<open>sleep\<close>, \<^verbatim>\<open>downloadImage\<close> and \<^verbatim>\<open>api.generateVideo\<close>.
\<close>

datatype effect =
    GeminiAcquire
  | GeminiAnalyze url
  | StoreUpdate string "(string \<times> fval) list"
  | FetchImage url
  | Generate "string option" "url list"
  | Sleep int
  | Download url string
  | GenerateVideo url "string option"

text \<open>
  What the request of \<^verbatim>\<open>FalSeedreamAPI.generate\<close> comes back with: \<^verbatim>\<open>fetch\<close> (or reading
  the body) throws an error with the given message; a response that is not \<^verbatim>\<open>ok\<close>,
  with its status and body text; or an \<^verbatim>\<open>ok\<close> response, with \<^verbatim>\<open>result.images || []\<close>.
\<close>

datatype fal_outcome = Rejects string | Status nat string | Images "url list"

text \<open>The same for \<^verbatim>\<open>generateVideo\<close>, with \<^verbatim>\<open>result.video?.url\<close>.\<close>

datatype fal_video_outcome = VRejects string | VStatus nat string | VResult "url option"

text \<open>
  What \<^verbatim>\<open>fetch(promptImageUrl)\<close> comes back with: an error, a response that is not
  \<^verbatim>\<open>ok\<close>, or the body (in base64) and the \<^verbatim>\<open>content-type\<close> header.
\<close>

datatype ref_fetch = RefRejects string | RefNotOk | RefOk string "string option"

text \<open>
  The answers of the outside world to one invocation of \<^verbatim>\<open>processPrompt\<close>: the clock
  readings (\<open>w_nowProgress\<close> for \<^verbatim>\<open>progressTracker.increment(true)\<close> in the \<^verbatim>\<open>try\<close>
  block, \<open>w_nowProgressCatch\<close> for \<^verbatim>\<open>progressTracker.increment(false)\<close> in the \<^verbatim>\<open>catch\<close>
  block), the longest string that the JavaScript engine builds, and the outcome of each
  external call (an error message on the left). \<^verbatim>\<open>analyzeImageWithGemini\<close> returns the
  text, the image (in base64) and its mime type.
\<close>

record World =
  w_nowCanProceed :: int
  w_nowRecordFailure :: int
  w_nowProgress :: int
  w_nowProgressCatch :: int
  w_maxStringLength :: int
  w_analyze :: "string + (string \<times> string \<times> string)"
  w_updatePrompt :: "string + unit"
  w_fetchPromptImage :: ref_fetch
  w_generate :: "nat \<Rightarrow> fal_outcome"
  w_saveImages :: "string + unit"
  w_generateVideo :: "nat \<Rightarrow> fal_video_outcome"
  w_saveVideo :: "string + unit"
  w_saveVideoError :: "string + unit"

text \<open>The object that \<^verbatim>\<open>processPrompt\<close> returns.\<close>

datatype result =
    Success string int
  | Failure string string bool

fun success :: "result \<Rightarrow> bool" where
  "success (Success promptId imageCount) = True"
| "success (Failure promptId err skipErrorSave) = False"

subsection \<open>ProgressTracker\<close>

text \<open>
  The fields of \<^verbatim>\<open>ProgressTracker\<close> that its methods read again; \<^verbatim>\<open>startTime\<close> only
  enters the printed rate and is left out. The numbers \<^verbatim>\<open>processedPrompts /
  totalPrompts\<close> and \<^verbatim>\<open>percentage / 100\<close> are doubles, modelled as real numbers.
\<close>

record ProgressTracker =
  totalPrompts :: int
  processedPrompts :: int
  successCount :: int
  failCount :: int
  lastUpdate :: int

text \<open>\<^verbatim>\<open>Math.round\<close>: the nearest integer, a half rounded upwards.\<close>

definition round_js :: "real \<Rightarrow> int" where
  "round_js x = \<lfloor>x + 1 / 2\<rfloor>"

text \<open>
  \<^verbatim>\<open>c.repeat(count)\<close> for a string \<open>c\<close> of one character and an integer count: a negative
  count and a result longer than the engine's longest string throw a \<^verbatim>\<open>RangeError\<close>,
  whose message is on the left.
\<close>

definition repeat_char :: "int \<Rightarrow> char \<Rightarrow> int \<Rightarrow> string + string" where
  "repeat_char maxLength c count =
     (if count < 0 then Inl (''Invalid count value: '' @ show_int count)
      else if count > maxLength then Inl ''Invalid string length''
      else Inr (replicate (nat count) c))"

definition makeProgressBar :: "int \<Rightarrow> int \<Rightarrow> int \<Rightarrow> string + string" where
  "makeProgressBar maxLength percentage width =
     (let filled = round_js ((real_of_int percentage / 100) * real_of_int width);
          empty = width - filled
      in case repeat_char maxLength CHR ''='' filled of
           Inl message \<Rightarrow> Inl message
         | Inr bar1 \<Rightarrow>
             (case repeat_char maxLength CHR ''-'' empty of
                Inl message \<Rightarrow> Inl message
              | Inr bar2 \<Rightarrow> Inr (bar1 @ bar2)))"

text \<open>
  \<^verbatim>\<open>showProgress()\<close>: the message of the error it throws, if it throws. Only
  \<^verbatim>\<open>makeProgressBar\<close> can throw; what is printed after it is left out.
\<close>

definition showProgress :: "int \<Rightarrow> ProgressTracker \<Rightarrow> string option" where
  "showProgress maxLength p =
     (let percentage =
            (if totalPrompts p > 0
             then round_js ((real_of_int (processedPrompts p) / real_of_int (totalPrompts p)) * 100)
             else 0)
      in case makeProgressBar maxLength percentage 30 of
           Inl message \<Rightarrow> Some message
         | Inr progressBar \<Rightarrow> None)"

text \<open>
  \<^verbatim>\<open>increment(success)\<close> with \<^verbatim>\<open>maybeShowProgress()\<close>: the tracker after the call and the
  message of the error thrown by \<^verbatim>\<open>showProgress()\<close>, if any. The counters and
  \<^verbatim>\<open>lastUpdate\<close> are written before \<^verbatim>\<open>showProgress()\<close> runs.
\<close>

definition increment ::
  "int \<Rightarrow> int \<Rightarrow> bool \<Rightarrow> ProgressTracker \<Rightarrow> ProgressTracker \<times> string option" where
  "increment maxLength now ok p =
     (let p1 = p\<lparr>processedPrompts := processedPrompts p + 1\<rparr>;
          p2 = (if ok then p1\<lparr>successCount := successCount p1 + 1\<rparr>
                else p1\<lparr>failCount := failCount p1 + 1\<rparr>)
      in if now - lastUpdate p2 < 2000 \<and> processedPrompts p2 < totalPrompts p2 then (p2, None)
         else (p2\<lparr>lastUpdate := now\<rparr>, showProgress maxLength (p2\<lparr>lastUpdate := now\<rparr>)))"

subsection \<open>Computations that call out and may throw\<close>

type_synonym 'a res = "effect list \<times> (string + 'a)"

definition ret :: "'a \<Rightarrow> 'a res" where
  "ret x = ([], Inr x)"

definition call :: "effect \<Rightarrow> (string + 'a) \<Rightarrow> 'a res" where
  "call e outcome = ([e], outcome)"

definition bindR :: "'a res \<Rightarrow> ('a \<Rightarrow> 'b res) \<Rightarrow> 'b res" where
  "bindR m f =
     (case m of
        (tr, Inl e) \<Rightarrow> (tr, Inl e)
      | (tr, Inr x) \<Rightarrow> (case f x of (tr2, r) \<Rightarrow> (tr @ tr2, r)))"

subsection \<open>FalSeedreamAPI\<close>

definition FalSeedreamAPI_generate :: "fal_outcome \<Rightarrow> string + url list" where
  "FalSeedreamAPI_generate out =
     (case out of
        Rejects m \<Rightarrow> Inl m
      | Status st errorText \<Rightarrow>
          Inl (''FAL API error '' @ show_nat st @ '': '' @ take 200 errorText)
      | Images images \<Rightarrow>
          (if length images = 0 then Inl ''FAL returned no images'' else Inr images))"

definition FalSeedreamAPI_generateVideo :: "fal_video_outcome \<Rightarrow> string + url" where
  "FalSeedreamAPI_generateVideo out =
     (case out of
        VRejects m \<Rightarrow> Inl m
      | VStatus st errorText \<Rightarrow>
          Inl (''FAL Video API error '' @ show_nat st @ '': '' @ take 200 errorText)
      | VResult videoUrl \<Rightarrow>
          (if \<not> truthy videoUrl then Inl ''FAL returned no video URL''
           else Inr (case videoUrl of Some v \<Rightarrow> v | None \<Rightarrow> [])))"


subsection \<open>Error classification\<close>

text \<open>The test in the \<^verbatim>\<open>catch\<close> block of the generation retry loop.\<close>

definition isRetryable :: "string \<Rightarrow> bool" where
  "isRetryable message =
     (let errorMsg = toLowerCase message;
          is524 = includes_str message ''524'';
          isTimeout = includes_str errorMsg ''timeout'';
          is5xxError = (includes_str message ''502'' \<or> includes_str message ''503'' \<or>
                        includes_str message ''504'')
      in is524 \<or> isTimeout \<or> is5xxError)"

text \<open>The test in the outer \<^verbatim>\<open>catch\<close> block of \<^verbatim>\<open>processPrompt\<close>.\<close>

definition isTransient :: "string \<Rightarrow> bool" where
  "isTransient message =
     (let errorMsg = toLowerCase message;
          is524 = includes_str message ''524'';
          isTimeout = includes_str errorMsg ''timeout'';
          isTooManySubrequests = includes_str errorMsg ''too many subrequests'';
          is5xxError = (includes_str message ''502'' \<or> includes_str message ''503'' \<or>
                        includes_str message ''504'')
      in is524 \<or> isTimeout \<or> isTooManySubrequests \<or> is5xxError)"

text \<open>The test in the \<^verbatim>\<open>catch\<close> block of the video retry loop.\<close>

definition isVideoRetryable :: "string \<Rightarrow> bool" where
  "isVideoRetryable message =
     (let is524 = includes_str message ''524'';
          isTimeout = includes_str (toLowerCase message) ''timeout''
      in is524 \<or> isTimeout)"

subsection \<open>The steps of processPrompt\<close>

definition dataUri :: "string \<Rightarrow> string \<Rightarrow> url" where
  "dataUri mimeType base64 = ''data:'' @ mimeType @ '';base64,'' @ base64"

text \<open>\<^verbatim>\<open>join(downloadsDir, filename)\<close> for a plain file name.\<close>

definition join :: "string \<Rightarrow> string \<Rightarrow> string" where
  "join dir filename = dir @ ''/'' @ filename"

text \<open>
  The \<^verbatim>\<open>else\<close> branch of \<^verbatim>\<open>processPrompt\<close> up to the generation: the optional analysis
  of the prompt image and the extra reference image. It returns \<^verbatim>\<open>promptText\<close>,
  \<^verbatim>\<open>videoPromptText\<close> and \<^verbatim>\<open>finalRefImageUrls\<close>.
\<close>

definition prepare_refs ::
  "World \<Rightarrow> PromptRecord \<Rightarrow> GenConfig \<Rightarrow> url list \<Rightarrow>
     (string option \<times> string option \<times> url list) res" where
  "prepare_refs w r cfg baseRefImageUrls =
     (let promptId = rec_id r;
          promptText = Prompt r;
          videoPromptText = (if truthy (Video_Prompt r) then Video_Prompt r else promptText)
      in case Prompt_Image r of
           Some (promptImageUrl # rest) \<Rightarrow>
             (if truthy (geminiApiKey cfg) then
                bindR (call GeminiAcquire (Inr ())) (\<lambda>u1.
                bindR (call (GeminiAnalyze promptImageUrl) (w_analyze w)) (\<lambda>(text, buffer, mimeType).
                bindR (call (StoreUpdate promptId [(''Prompt'', FText text)]) (w_updatePrompt w)) (\<lambda>u2.
                  ret (Some text,
                       (if \<not> truthy (Video_Prompt r) then Some text else videoPromptText),
                       baseRefImageUrls @ [dataUri mimeType buffer]))))
              else
                (case w_fetchPromptImage w of
                   RefRejects m \<Rightarrow> call (FetchImage promptImageUrl) (Inl m)
                 | RefNotOk \<Rightarrow>
                     call (FetchImage promptImageUrl)
                       (Inr (promptText, videoPromptText, baseRefImageUrls))
                 | RefOk base64 contentType \<Rightarrow>
                     call (FetchImage promptImageUrl)
                       (Inr (promptText, videoPromptText,
                             baseRefImageUrls @
                               [dataUri (case contentType of
                                          None \<Rightarrow> ''image/png''
                                        | Some ct \<Rightarrow> if ct = [] then ''image/png'' else ct)
                                  base64]))))
         | _ \<Rightarrow> ret (promptText, videoPromptText, baseRefImageUrls))"

text \<open>
  The generation retry loop \<^verbatim>\<open>for (let attempt = 1; attempt <= 3; attempt++)\<close> with the
  statement after it, \<^verbatim>\<open>if (!images) throw lastError || new Error(...)\<close>.
\<close>

function generate_loop ::
  "(nat \<Rightarrow> fal_outcome) \<Rightarrow> string option \<Rightarrow> url list \<Rightarrow> nat \<Rightarrow> string option \<Rightarrow>
     url list res" where
  "generate_loop gen promptText refs attempt lastError =
     (if attempt \<le> 3 then
        (case FalSeedreamAPI_generate (gen attempt) of
           Inr images \<Rightarrow> ([Generate promptText refs], Inr images)
         | Inl message \<Rightarrow>
             (if isRetryable message \<and> attempt < 3 then
                (let backoffDelay = [1000, 2000, 4000] ! (attempt - 1)
                 in case generate_loop gen promptText refs (attempt + 1) (Some message) of
                      (tr, out) \<Rightarrow> (Generate promptText refs # Sleep backoffDelay # tr, out))
              else ([Generate promptText refs], Inl message)))
      else ([], Inl (case lastError of
                       Some m \<Rightarrow> m
                     | None \<Rightarrow> ''Failed to generate images after 3 attempts'')))"
  by pat_completeness auto
termination
  by (relation "measure (\<lambda>(gen, promptText, refs, attempt, lastError). 4 - attempt)") auto

declare generate_loop.simps [simp del]

text \<open>The download loop; a failed download is caught and only logged.\<close>

fun download_all :: "string \<Rightarrow> string \<Rightarrow> url list \<Rightarrow> nat \<Rightarrow> effect list" where
  "download_all dir promptId [] i = []"
| "download_all dir promptId (imageUrl # rest) i =
     Download imageUrl (join dir (promptId @ ''_'' @ show_nat (i + 1) @ ''.png''))
       # download_all dir promptId rest (i + 1)"

text \<open>
  The video retry loop \<^verbatim>\<open>for (let attempt = 1; attempt <= 2; attempt++)\<close> with the
  statement after it. \<^verbatim>\<open>images[0].url\<close> throws a \<^verbatim>\<open>TypeError\<close> when there is no image.
\<close>

function video_loop ::
  "(nat \<Rightarrow> fal_video_outcome) \<Rightarrow> url list \<Rightarrow> string option \<Rightarrow> nat \<Rightarrow> string option \<Rightarrow>
     url res" where
  "video_loop genVideo images videoPromptText attempt lastVideoError =
     (if attempt \<le> 2 then
        (case images of
           [] \<Rightarrow> ([], Inl ''Cannot read properties of undefined (reading 'url')'')
         | imageUrl # rest \<Rightarrow>
             (case FalSeedreamAPI_generateVideo (genVideo attempt) of
                Inr video \<Rightarrow> ([GenerateVideo imageUrl videoPromptText], Inr video)
              | Inl message \<Rightarrow>
                  (if isVideoRetryable message \<and> attempt < 2 then
                     (case video_loop genVideo images videoPromptText (attempt + 1)
                             (Some message) of
                        (tr, out) \<Rightarrow>
                          (GenerateVideo imageUrl videoPromptText # Sleep 5000 # tr, out))
                   else ([GenerateVideo imageUrl videoPromptText], Inl message))))
      else ([], Inl (case lastVideoError of
                       Some m \<Rightarrow> m
                     | None \<Rightarrow> ''Failed to generate video after 2 attempts'')))"
  by pat_completeness auto
termination
  by (relation "measure (\<lambda>(genVideo, images, prompt, attempt, lastError). 3 - attempt)") auto

declare video_loop.simps [simp del]

text \<open>
  The inner \<^verbatim>\<open>try\<close>/\<^verbatim>\<open>catch\<close> around the video generation: an error of the loop or of
  the store update is recorded in the field \<^verbatim>\<open>Error Message\<close>; only an error of that
  last update leaves the block.
\<close>

definition video_section ::
  "World \<Rightarrow> string \<Rightarrow> GenConfig \<Rightarrow> url list \<Rightarrow> string option \<Rightarrow> unit res" where
  "video_section w promptId cfg images videoPromptText =
     (case bindR (video_loop (w_generateVideo w) images videoPromptText 1 None) (\<lambda>video.
           bindR ([Download video (join (downloadsDir cfg) (promptId @ ''_video.mp4''))], Inr ())
             (\<lambda>u. call (StoreUpdate promptId [(''Generated_Videos'', FUrls [video])])
                     (w_saveVideo w))) of
        (tr, Inr u) \<Rightarrow> (tr, Inr ())
      | (tr, Inl message) \<Rightarrow>
          (tr @ [StoreUpdate promptId
                   [(''Error Message'', FText (''Video generation failed: '' @ message))]],
           w_saveVideoError w))"

text \<open>The \<^verbatim>\<open>else\<close> branch as a whole: preparation, generation, downloads, store update.\<close>

definition generate_branch ::
  "World \<Rightarrow> PromptRecord \<Rightarrow> GenConfig \<Rightarrow> url list \<Rightarrow> (url list \<times> string option) res" where
  "generate_branch w r cfg baseRefImageUrls =
     bindR (prepare_refs w r cfg baseRefImageUrls) (\<lambda>(promptText, videoPromptText, refs).
     bindR (generate_loop (w_generate w) promptText refs 1 None) (\<lambda>images.
     bindR (download_all (downloadsDir cfg) (rec_id r) images 0, Inr ()) (\<lambda>u1.
     bindR (call (StoreUpdate (rec_id r)
                    [(''Generated Images'', FUrls images), (''Error Message'', FNull)])
              (w_saveImages w)) (\<lambda>u2.
       ret (images, videoPromptText)))))"

text \<open>The outer \<^verbatim>\<open>try\<close> block up to \<^verbatim>\<open>progressTracker.increment(true)\<close>; it yields \<^verbatim>\<open>images\<close>.\<close>

definition try_block :: "World \<Rightarrow> PromptRecord \<Rightarrow> GenConfig \<Rightarrow> url list \<Rightarrow> url list res" where
  "try_block w r cfg baseRefImageUrls =
     bindR
       (case Generated_Images r of
          Some (img # imgs) \<Rightarrow>
            ret (img # imgs,
                 (if truthy (Video_Prompt r) then Video_Prompt r else Prompt r))
        | _ \<Rightarrow> generate_branch w r cfg baseRefImageUrls)
       (\<lambda>(images, videoPromptText).
          if enableVideo cfg
          then bindR (video_section w (rec_id r) cfg images videoPromptText) (\<lambda>u. ret images)
          else ret images)"

text \<open>
  The outer \<^verbatim>\<open>catch\<close> block of \<^verbatim>\<open>processPrompt\<close> for an error with the given message,
  from the breaker, the tracker and the calls made so far. The result is on the right
  when \<^verbatim>\<open>processPrompt\<close> returns; it is on the left, as the message, when
  \<^verbatim>\<open>progressTracker.increment(false)\<close> throws and \<^verbatim>\<open>processPrompt\<close> with it. The update
  of the store has its own \<^verbatim>\<open>try\<close>/\<^verbatim>\<open>catch\<close>, so its outcome does not matter.
\<close>

definition catch_block ::
  "World \<Rightarrow> string \<Rightarrow> SimpleCircuitBreaker option \<Rightarrow> ProgressTracker \<Rightarrow> effect list \<Rightarrow>
     string \<Rightarrow>
     (string + result) \<times> SimpleCircuitBreaker option \<times> ProgressTracker \<times> effect list" where
  "catch_block w promptId cb p tr message =
     (if isTransient message then
        (case increment (w_maxStringLength w) (w_nowProgressCatch w) False p of
           (p1, None) \<Rightarrow> (Inr (Failure promptId message True), cb, p1, tr)
         | (p1, Some thrown) \<Rightarrow> (Inl thrown, cb, p1, tr))
      else
        (let cb1 = map_option (recordFailure (w_nowRecordFailure w)) cb;
             tr1 = tr @ [StoreUpdate promptId [(''Error Message'', FText (take 200 message))]]
         in case increment (w_maxStringLength w) (w_nowProgressCatch w) False p of
              (p1, None) \<Rightarrow> (Inr (Failure promptId message False), cb1, p1, tr1)
            | (p1, Some thrown) \<Rightarrow> (Inl thrown, cb1, p1, tr1)))"

text \<open>
  \<^verbatim>\<open>processPrompt\<close>. The global \<^verbatim>\<open>circuitBreaker\<close> (\<^verbatim>\<open>null\<close> until \<^verbatim>\<open>main\<close> creates it) and
  \<^verbatim>\<open>progressTracker\<close> are passed in and returned, with the external calls made. The
  first component is the returned object, or on the left the message of the error
  with which \<^verbatim>\<open>processPrompt\<close> throws. \<^verbatim>\<open>progressTracker.increment(true)\<close> is the last
  statement of the \<^verbatim>\<open>try\<close> block that can throw; its error goes to the \<^verbatim>\<open>catch\<close> block.
\<close>

definition processPrompt ::
  "World \<Rightarrow> SimpleCircuitBreaker option \<Rightarrow> ProgressTracker \<Rightarrow> PromptRecord \<Rightarrow> url list \<Rightarrow>
     GenConfig \<Rightarrow>
     (string + result) \<times> SimpleCircuitBreaker option \<times> ProgressTracker \<times> effect list" where
  "processPrompt w circuitBreaker progressTracker r baseRefImageUrls cfg =
     (let promptId = rec_id r;
          checked = map_option (canProceed (w_nowCanProceed w)) circuitBreaker;
          cb = map_option snd checked
      in if (case checked of Some (ok, b) \<Rightarrow> \<not> ok | None \<Rightarrow> False)
         then (Inr (Failure promptId ''Circuit breaker open'' True), cb, progressTracker, [])
         else
           (case try_block w r cfg baseRefImageUrls of
              (tr, Inr images) \<Rightarrow>
                (case increment (w_maxStringLength w) (w_nowProgress w) True progressTracker of
                   (p1, None) \<Rightarrow>
                     (Inr (Success promptId (int (length images))),
                      map_option recordSuccess cb, p1, tr)
                 | (p1, Some thrown) \<Rightarrow> catch_block w promptId cb p1 tr thrown)
            | (tr, Inl message) \<Rightarrow> catch_block w promptId cb progressTracker tr message))"

text \<open>The error texts that a sequence of calls writes to the field \<^verbatim>\<open>Error Message\<close>.\<close>

fun error_texts :: "effect list \<Rightarrow> string list" where
  "error_texts [] = []"
| "error_texts (StoreUpdate promptId flds # tr) =
     [t. (k, FText t) \<leftarrow> flds, k = ''Error Message''] @ error_texts tr"
| "error_texts (e # tr) = error_texts tr"

fun generate_calls :: "effect list \<Rightarrow> nat" where
  "generate_calls [] = 0"
| "generate_calls (Generate p refs # tr) = Suc (generate_calls tr)"
| "generate_calls (e # tr) = generate_calls tr"

fun video_calls :: "effect list \<Rightarrow> nat" where
  "video_calls [] = 0"
| "video_calls (GenerateVideo u p # tr) = Suc (video_calls tr)"
| "video_calls (e # tr) = video_calls tr"

fun sleeps :: "effect list \<Rightarrow> int list" where
  "sleeps [] = []"
| "sleeps (Sleep ms # tr) = ms # sleeps tr"
| "sleeps (e # tr) = sleeps tr"

section \<open>Notions used to state the properties\<close>

text \<open>The average of the last three recorded upload times.\<close>

definition average_last3 :: "real list \<Rightarrow> real" where
  "average_last3 xs = sum_list (slice_last 3 xs) / 3"

text \<open>
  The part of the limiter that the latency samples drive: the samples, the slow-mode
  flag and the effective limit.
\<close>

definition adaptive_state :: "UploadLimiter \<Rightarrow> real list \<times> bool \<times> int" where
  "adaptive_state u = (recentUploadTimes u, slowConnectionDetected u, maxUpload u)"

fun is_resolve :: "wf_event \<Rightarrow> bool" where
  "is_resolve (FetchResolves now) = True"
| "is_resolve e = False"

text \<open>Attempt \<open>n\<close> of the generation failed with an error that the retry loop retries.\<close>

definition retried :: "(nat \<Rightarrow> fal_outcome) \<Rightarrow> nat \<Rightarrow> bool" where
  "retried gen n =
     (case FalSeedreamAPI_generate (gen n) of Inl message \<Rightarrow> isRetryable message | Inr images \<Rightarrow> False)"

text \<open>
  Inputs for concrete runs: a job without images or prompt image, the same job with
  one image already generated, a configuration without video and without Gemini key,
  a progress tracker at the start of a page of one prompt, a tracker that has counted
  101 prompts when \<^verbatim>\<open>main\<close> sets the total for a second page of 100, and a world in
  which every call succeeds except that the generation and the video requests come
  back as given (its longest string is that of Node 18, \<open>2\<^sup>2\<^sup>9 - 24\<close> characters).
\<close>

definition job_new :: PromptRecord where
  "job_new = \<lparr>rec_id = ''rec1'', Prompt = Some ''a portrait'', Video_Prompt = None,
              Generated_Images = None, Prompt_Image = None\<rparr>"

definition job_done :: PromptRecord where
  "job_done = job_new\<lparr>Generated_Images := Some [''https://cdn/img1.png'']\<rparr>"

definition config_plain :: GenConfig where
  "config_plain = \<lparr>numImages = 6, imageSize = ''2048x2048'', enableNSFW = False,
                   enableVideo = False, videoDuration = 5, geminiApiKey = None,
                   geminiPromptTemplate = ''Describe this image'', downloadsDir = ''downloads''\<rparr>"

definition tracker_new :: ProgressTracker where
  "tracker_new = \<lparr>totalPrompts = 1, processedPrompts = 0, successCount = 0, failCount = 0,
                  lastUpdate = 0\<rparr>"

definition tracker_page2 :: ProgressTracker where
  "tracker_page2 = \<lparr>totalPrompts = 100, processedPrompts = 101, successCount = 101,
                    failCount = 0, lastUpdate = 1000\<rparr>"

definition world_with :: "(nat \<Rightarrow> fal_outcome) \<Rightarrow> (nat \<Rightarrow> fal_video_outcome) \<Rightarrow> World" where
  "world_with gen genVideo =
     \<lparr>w_nowCanProceed = 2000, w_nowRecordFailure = 3000, w_nowProgress = 3000,
      w_nowProgressCatch = 3000, w_maxStringLength = 536870888,
      w_analyze = Inr (''a description'', ''AAAA'', ''image/png''),
      w_updatePrompt = Inr (), w_fetchPromptImage = RefNotOk,
      w_generate = gen, w_saveImages = Inr (),
      w_generateVideo = genVideo, w_saveVideo = Inr (), w_saveVideoError = Inr ()\<rparr>"

text \<open>
  What holds of the limiter and its tasks in every state: \<^verbatim>\<open>running\<close> counts the active
  tasks and is at most the limit; no task is in two places; the tasks that have called
  \<^verbatim>\<open>run\<close> are the active, woken, queued and completed ones; and while a task is queued,
  the slots are all taken or promised to woken waiters.
\<close>

definition cl_inv :: "CLsystem \<Rightarrow> bool" where
  "cl_inv s \<longleftrightarrow>
     running (limiter s) = int (length (active s)) \<and>
     running (limiter s) \<le> maxConcurrent (limiter s) \<and>
     distinct (active s @ woken s @ queue (limiter s) @ completed s) \<and>
     set (active s @ woken s @ queue (limiter s) @ completed s) = set (arrived s) \<and>
     (queue (limiter s) \<noteq> [] \<longrightarrow>
        maxConcurrent (limiter s) \<le> running (limiter s) + int (length (woken s)))"

text \<open>
  What holds in addition as long as no task calls \<^verbatim>\<open>run\<close> while a woken waiter has not
  resumed: the tasks have acquired their slots, been woken and been queued in the order
  of their arrival, and there is a free slot for every woken waiter.
\<close>

definition fifo_inv :: "CLsystem \<Rightarrow> bool" where
  "fifo_inv s \<longleftrightarrow>
     arrived s = acquired s @ woken s @ queue (limiter s) \<and>
     running (limiter s) + int (length (woken s)) \<le> maxConcurrent (limiter s)"

section \<open>Properties of the circuit breaker\<close>

lemma recordFailure_fields:
  "failures (recordFailure now b) = failures b + 1"
  "lastFailure (recordFailure now b) = Some now"
  "threshold (recordFailure now b) = threshold b"
  "cooldownMs (recordFailure now b) = cooldownMs b"
  "totalBreaks (recordFailure now b) =
     totalBreaks b + (if threshold b \<le> failures b + 1 then 1 else 0)"
  by (simp_all add: recordFailure_def Let_def)

lemma recordFailures_fields:
  "failures (recordFailures ts b) = failures b + int (length ts) \<and>
   threshold (recordFailures ts b) = threshold b \<and>
   totalBreaks (recordFailures ts b) =
     totalBreaks b +
     max 0 (min (int (length ts)) (failures b + int (length ts) - threshold b + 1))"
  unfolding recordFailures_def
proof (induction ts arbitrary: b)
  case Nil
  show ?case by simp
next
  case (Cons t ts)
  show ?case
    by (simp add: Cons.IH recordFailure_fields)
qed

lemma failures_nonneg_invariant:
  "0 \<le> failures (SimpleCircuitBreaker_new thr cd)"
  "0 \<le> failures b \<Longrightarrow> 0 \<le> failures (recordFailure now b)"
  "0 \<le> failures b \<Longrightarrow> 0 \<le> failures (recordSuccess b)"
  "0 \<le> failures b \<Longrightarrow> 0 \<le> failures (snd (canProceed now b))"
  by (simp_all add: SimpleCircuitBreaker_new_def recordFailure_fields recordSuccess_def
      canProceed_def Let_def)

text \<open>
  C4 (as amended). \<^verbatim>\<open>recordFailure()\<close> adds one to the failure counter and stamps the
  failure time. It adds one to \<^verbatim>\<open>totalBreaks\<close> on every call that leaves the counter at
  or above the threshold, not only on the call that first reaches it: a run of
  consecutive calls raises \<^verbatim>\<open>totalBreaks\<close> by the number of its calls that end at or
  above the threshold.
\<close>

theorem recordFailure_counts_every_call_at_threshold:
  "failures (recordFailure now b) = failures b + 1 \<and>
   lastFailure (recordFailure now b) = Some now \<and>
   totalBreaks (recordFailure now b) =
     totalBreaks b + (if threshold b \<le> failures b + 1 then 1 else 0) \<and>
   failures (recordFailures ts b) = failures b + int (length ts) \<and>
   totalBreaks (recordFailures ts b) =
     totalBreaks b +
     max 0 (min (int (length ts)) (failures b + int (length ts) - threshold b + 1))"
  using recordFailures_fields [of ts b] by (simp add: recordFailure_fields)

theorem recordFailure_counts_witness:
  "totalBreaks (recordFailures [1000, 1001, 1002] (SimpleCircuitBreaker_new 2 60000)) = 2"
  using recordFailure_counts_every_call_at_threshold
          [of 0 "SimpleCircuitBreaker_new 2 60000" "[1000, 1001, 1002]"]
  by (simp add: SimpleCircuitBreaker_new_def)

text \<open>
  C4 as stated fails: with the threshold 5 of \<^verbatim>\<open>main\<close>, six consecutive failures (two
  jobs were in flight when the fifth was recorded) raise \<^verbatim>\<open>totalBreaks\<close> by 2.
\<close>

theorem recordFailure_one_break_counterexample:
  "\<not> totalBreaks (recordFailures [1000, 1001, 1002, 1003, 1004, 1005]
                    (SimpleCircuitBreaker_new 5 60000))
       \<le> totalBreaks (SimpleCircuitBreaker_new 5 60000) + 1"
  by (simp add: recordFailures_def recordFailure_def SimpleCircuitBreaker_new_def Let_def)

lemma recordFailures_lastFailure:
  "ts \<noteq> [] \<Longrightarrow> lastFailure (recordFailures ts b) = Some (last ts)"
  unfolding recordFailures_def
proof (induction ts arbitrary: b)
  case Nil
  then show ?case by simp
next
  case (Cons t ts)
  show ?case
  proof (cases "ts = []")
    case True
    then show ?thesis by (simp add: recordFailure_fields)
  next
    case False
    with Cons.IH [of "recordFailure t b"] show ?thesis by simp
  qed
qed

text \<open>
  C5. \<^verbatim>\<open>canProceed()\<close> returns true and changes nothing while the counter is below the
  threshold. At or above the threshold it returns true exactly when \<^verbatim>\<open>Date.now()\<close> minus
  \<^verbatim>\<open>lastFailure\<close> (0 while it is \<^verbatim>\<open>null\<close>) is more than \<^verbatim>\<open>cooldownMs\<close>, and then only
  resets the counter to 0; otherwise it returns false and changes nothing. So it
  returns false exactly when the counter is at or above the threshold and the time
  since \<^verbatim>\<open>lastFailure\<close> is at most the cooldown. \<^verbatim>\<open>lastFailure\<close> is the time of the last
  \<^verbatim>\<open>recordFailure()\<close>, so after a failure recorded at time \<open>t\<close> that reaches the
  threshold the breaker lets work proceed exactly from \<open>t + cooldownMs\<close> on, exclusive.
  One \<^verbatim>\<open>recordSuccess()\<close> leaves the counter at 0.
\<close>

theorem canProceed_contract:
  assumes "0 \<le> failures b"
  shows "(failures b < threshold b \<longrightarrow> canProceed now b = (True, b)) \<and>
         (threshold b \<le> failures b \<longrightarrow>
            (fst (canProceed now b) \<longleftrightarrow>
               cooldownMs b < now - (case lastFailure b of None \<Rightarrow> 0 | Some t \<Rightarrow> t)) \<and>
            (cooldownMs b < now - (case lastFailure b of None \<Rightarrow> 0 | Some t \<Rightarrow> t) \<longrightarrow>
               canProceed now b = (True, b\<lparr>failures := 0\<rparr>)) \<and>
            (now - (case lastFailure b of None \<Rightarrow> 0 | Some t \<Rightarrow> t) \<le> cooldownMs b \<longrightarrow>
               canProceed now b = (False, b))) \<and>
         (\<not> fst (canProceed now b) \<longleftrightarrow>
            threshold b \<le> failures b \<and>
            now - (case lastFailure b of None \<Rightarrow> 0 | Some t \<Rightarrow> t) \<le> cooldownMs b) \<and>
         (lastFailure b = Some t0 \<longrightarrow>
            (\<not> fst (canProceed now b) \<longleftrightarrow>
               threshold b \<le> failures b \<and> now - t0 \<le> cooldownMs b)) \<and>
         lastFailure (recordFailure t1 b) = Some t1 \<and>
         (ts \<noteq> [] \<longrightarrow> lastFailure (recordFailures ts b) = Some (last ts)) \<and>
         (threshold b \<le> failures b + 1 \<longrightarrow>
            (fst (canProceed now (recordFailure t1 b)) \<longleftrightarrow> cooldownMs b < now - t1)) \<and>
         failures (recordSuccess b) = 0"
proof -
  have a: "failures b < threshold b \<longrightarrow> canProceed now b = (True, b)"
    by (simp add: canProceed_def)
  have b: "threshold b \<le> failures b \<longrightarrow>
            (fst (canProceed now b) \<longleftrightarrow>
               cooldownMs b < now - (case lastFailure b of None \<Rightarrow> 0 | Some t \<Rightarrow> t)) \<and>
            (cooldownMs b < now - (case lastFailure b of None \<Rightarrow> 0 | Some t \<Rightarrow> t) \<longrightarrow>
               canProceed now b = (True, b\<lparr>failures := 0\<rparr>)) \<and>
            (now - (case lastFailure b of None \<Rightarrow> 0 | Some t \<Rightarrow> t) \<le> cooldownMs b \<longrightarrow>
               canProceed now b = (False, b))"
    by (simp add: canProceed_def Let_def)
  have c: "\<not> fst (canProceed now b) \<longleftrightarrow>
            threshold b \<le> failures b \<and>
            now - (case lastFailure b of None \<Rightarrow> 0 | Some t \<Rightarrow> t) \<le> cooldownMs b"
    by (auto simp add: canProceed_def Let_def)
  have d: "lastFailure b = Some t0 \<longrightarrow>
            (\<not> fst (canProceed now b) \<longleftrightarrow>
               threshold b \<le> failures b \<and> now - t0 \<le> cooldownMs b)"
    using c by simp
  have e: "lastFailure (recordFailure t1 b) = Some t1"
    by (simp add: recordFailure_fields)
  have f: "ts \<noteq> [] \<longrightarrow> lastFailure (recordFailures ts b) = Some (last ts)"
    by (simp add: recordFailures_lastFailure)
  have g: "threshold b \<le> failures b + 1 \<longrightarrow>
            (fst (canProceed now (recordFailure t1 b)) \<longleftrightarrow> cooldownMs b < now - t1)"
    by (simp add: canProceed_def Let_def recordFailure_fields)
  have h: "failures (recordSuccess b) = 0"
    using assms by (simp add: recordSuccess_def)
  from a b c d e f g h show ?thesis by blast
qed

theorem canProceed_contract_witness:
  "canProceed 2000 (recordFailures [1000] (SimpleCircuitBreaker_new 5 60000))
     = (True, recordFailures [1000] (SimpleCircuitBreaker_new 5 60000)) \<and>
   lastFailure (recordFailures [1000, 5000] (SimpleCircuitBreaker_new 2 60000)) = Some 5000 \<and>
   canProceed 65001 (recordFailures [1000, 5000] (SimpleCircuitBreaker_new 2 60000))
     = (True, (recordFailures [1000, 5000] (SimpleCircuitBreaker_new 2 60000))\<lparr>failures := 0\<rparr>) \<and>
   canProceed 65000 (recordFailures [1000, 5000] (SimpleCircuitBreaker_new 2 60000))
     = (False, recordFailures [1000, 5000] (SimpleCircuitBreaker_new 2 60000)) \<and>
   \<not> fst (canProceed 65000 (recordFailure 5000
            (recordFailures [1000] (SimpleCircuitBreaker_new 2 60000)))) \<and>
   fst (canProceed 50000 (SimpleCircuitBreaker_new 0 40000)) \<and>
   \<not> fst (canProceed 40000 (SimpleCircuitBreaker_new 0 40000)) \<and>
   failures (recordSuccess (recordFailures [1000] (SimpleCircuitBreaker_new 5 60000))) = 0"
proof -
  let ?b1 = "recordFailures [1000] (SimpleCircuitBreaker_new 5 60000)"
  let ?b2 = "recordFailures [1000, 5000] (SimpleCircuitBreaker_new 2 60000)"
  let ?b3 = "recordFailures [1000] (SimpleCircuitBreaker_new 2 60000)"
  let ?b0 = "SimpleCircuitBreaker_new 0 40000"
  have f1: "failures ?b1 = 1" "threshold ?b1 = 5"
    and f2: "failures ?b2 = 2" "threshold ?b2 = 2" "cooldownMs ?b2 = 60000"
    and f3: "failures ?b3 = 1" "threshold ?b3 = 2" "cooldownMs ?b3 = 60000"
    and f0: "failures ?b0 = 0" "threshold ?b0 = 0" "cooldownMs ?b0 = 40000"
            "lastFailure ?b0 = None"
    by (simp_all add: recordFailures_def recordFailure_fields SimpleCircuitBreaker_new_def)
  note w1 = canProceed_contract [of ?b1 2000 1000 1000 "[1000]"]
  note w2 = canProceed_contract [of ?b2 65001 5000 5000 "[1000, 5000]"]
  note w3 = canProceed_contract [of ?b2 65000 5000 5000 "[1000, 5000]"]
  note w4 = canProceed_contract [of ?b3 65000 5000 5000 "[1000, 5000]"]
  note w5 = canProceed_contract [of ?b0 50000 0 0 "[1000]"]
  note w6 = canProceed_contract [of ?b0 40000 0 0 "[1000]"]
  note w7 = canProceed_contract [of "SimpleCircuitBreaker_new 2 60000" 0 0 0 "[1000, 5000]"]
  have l2: "lastFailure ?b2 = Some 5000"
    using w7 by (simp add: SimpleCircuitBreaker_new_def)
  from w1 f1 have c1: "canProceed 2000 ?b1 = (True, ?b1)" by simp
  from w2 f2 l2 have c2: "canProceed 65001 ?b2 = (True, ?b2\<lparr>failures := 0\<rparr>)" by simp
  from w3 f2 l2 have c3: "canProceed 65000 ?b2 = (False, ?b2)" by simp
  from w4 f3 have c4: "\<not> fst (canProceed 65000 (recordFailure 5000 ?b3))" by simp
  from w5 f0 have c5: "fst (canProceed 50000 ?b0)" by simp
  from w6 f0 have c6: "\<not> fst (canProceed 40000 ?b0)" by simp
  from w1 f1 have c7: "failures (recordSuccess ?b1) = 0" by simp
  from l2 c1 c2 c3 c4 c5 c6 c7 show ?thesis by blast
qed

section \<open>Properties of the upload limiter\<close>

lemma slice_last3_snoc:
  assumes "2 \<le> length xs"
  shows "slice_last 3 (xs @ [d]) = [xs ! (length xs - 2), last xs, d]"
proof (cases xs rule: rev_cases)
  case Nil
  with assms show ?thesis by simp
next
  case outer: (snoc ys b)
  show ?thesis
  proof (cases ys rule: rev_cases)
    case Nil
    with outer assms show ?thesis by simp
  next
    case (snoc zs a)
    with outer show ?thesis
      by (simp add: slice_last_def nth_append)
  qed
qed

lemma slice_last3_tl:
  assumes "4 \<le> length xs"
  shows "slice_last 3 (tl xs) = slice_last 3 xs"
proof -
  from assms obtain x ys where xs: "xs = x # ys" by (cases xs) auto
  with assms have len: "3 \<le> length ys" by simp
  then have "length ys - 2 = Suc (length ys - 3)" by arith
  then show ?thesis
    by (simp add: xs slice_last_def)
qed

lemma recordUploadTime_times:
  "recentUploadTimes (recordUploadTime d u) =
     (if 10 \<le> length (recentUploadTimes u) then tl (recentUploadTimes u @ [d])
      else recentUploadTimes u @ [d])"
  by (simp add: recordUploadTime_def Let_def)

lemma average_last3_after:
  assumes "2 \<le> length (recentUploadTimes u)"
  shows "average_last3 (recentUploadTimes (recordUploadTime d u)) =
           (recentUploadTimes u ! (length (recentUploadTimes u) - 2)
              + last (recentUploadTimes u) + d) / 3"
proof -
  have "slice_last 3 (recentUploadTimes (recordUploadTime d u)) =
          slice_last 3 (recentUploadTimes u @ [d])"
    using slice_last3_tl [of "recentUploadTimes u @ [d]"]
    by (simp add: recordUploadTime_times)
  then show ?thesis
    by (simp add: average_last3_def slice_last3_snoc [OF assms])
qed

lemma recordUploadTime_length:
  "length (recentUploadTimes (recordUploadTime d u)) < 3 \<longleftrightarrow> length (recentUploadTimes u) < 2"
  by (auto simp add: recordUploadTime_times)


text \<open>
  C6. After \<^verbatim>\<open>recordUploadTime(d)\<close>: with at least 3 samples, an average of the last 3
  above 20000 and slow mode off, the limit becomes \<^verbatim>\<open>fallbackConcurrency\<close> and the flag
  is set; with at least 3 samples, an average below 15000 and slow mode on, the limit
  becomes \<^verbatim>\<open>fallbackConcurrency + 1\<close> and the flag is cleared; with fewer than 3
  samples, or an average from 15000 to 20000, neither the flag nor the limit changes.
  The last 3 samples are the last two recorded before the call and \<open>d\<close>, and there are
  fewer than 3 samples exactly when fewer than 2 were recorded before the call.
\<close>

theorem recordUploadTime_hysteresis:
  "(3 \<le> length (recentUploadTimes (recordUploadTime d u)) \<and>
      20000 < average_last3 (recentUploadTimes (recordUploadTime d u)) \<and>
      \<not> slowConnectionDetected u \<longrightarrow>
        maxUpload (recordUploadTime d u) = fallbackConcurrency u \<and>
        slowConnectionDetected (recordUploadTime d u)) \<and>
   (3 \<le> length (recentUploadTimes (recordUploadTime d u)) \<and>
      average_last3 (recentUploadTimes (recordUploadTime d u)) < 15000 \<and>
      slowConnectionDetected u \<longrightarrow>
        maxUpload (recordUploadTime d u) = fallbackConcurrency u + 1 \<and>
        \<not> slowConnectionDetected (recordUploadTime d u)) \<and>
   (length (recentUploadTimes (recordUploadTime d u)) < 3 \<or>
      (15000 \<le> average_last3 (recentUploadTimes (recordUploadTime d u)) \<and>
       average_last3 (recentUploadTimes (recordUploadTime d u)) \<le> 20000) \<longrightarrow>
        maxUpload (recordUploadTime d u) = maxUpload u \<and>
        slowConnectionDetected (recordUploadTime d u) = slowConnectionDetected u) \<and>
   (length (recentUploadTimes (recordUploadTime d u)) < 3 \<longleftrightarrow>
      length (recentUploadTimes u) < 2) \<and>
   (2 \<le> length (recentUploadTimes u) \<longrightarrow>
      average_last3 (recentUploadTimes (recordUploadTime d u)) =
        (recentUploadTimes u ! (length (recentUploadTimes u) - 2)
           + last (recentUploadTimes u) + d) / 3)"
proof -
  have flags:
    "(3 \<le> length (recentUploadTimes (recordUploadTime d u)) \<and>
        20000 < average_last3 (recentUploadTimes (recordUploadTime d u)) \<and>
        \<not> slowConnectionDetected u \<longrightarrow>
          maxUpload (recordUploadTime d u) = fallbackConcurrency u \<and>
          slowConnectionDetected (recordUploadTime d u)) \<and>
     (3 \<le> length (recentUploadTimes (recordUploadTime d u)) \<and>
        average_last3 (recentUploadTimes (recordUploadTime d u)) < 15000 \<and>
        slowConnectionDetected u \<longrightarrow>
          maxUpload (recordUploadTime d u) = fallbackConcurrency u + 1 \<and>
          \<not> slowConnectionDetected (recordUploadTime d u)) \<and>
     (length (recentUploadTimes (recordUploadTime d u)) < 3 \<or>
        (15000 \<le> average_last3 (recentUploadTimes (recordUploadTime d u)) \<and>
         average_last3 (recentUploadTimes (recordUploadTime d u)) \<le> 20000) \<longrightarrow>
          maxUpload (recordUploadTime d u) = maxUpload u \<and>
          slowConnectionDetected (recordUploadTime d u) = slowConnectionDetected u)"
    by (simp add: recordUploadTime_def Let_def average_last3_def)
  show ?thesis
    using flags recordUploadTime_length [of d u] average_last3_after [of u d] by blast
qed

theorem recordUploadTime_hysteresis_witness:
  "slowConnectionDetected
     (recordUploadTime 25000 (recordUploadTime 25000 (recordUploadTime 25000
        (UploadLimiter_new 3 10000 2)))) \<and>
   maxUpload
     (recordUploadTime 25000 (recordUploadTime 25000 (recordUploadTime 25000
        (UploadLimiter_new 3 10000 2)))) = 2 \<and>
   \<not> slowConnectionDetected
     (recordUploadTime 5000
        ((UploadLimiter_new 2 10000 2)
           \<lparr>recentUploadTimes := [25000, 5000, 5000], slowConnectionDetected := True\<rparr>)) \<and>
   maxUpload
     (recordUploadTime 5000
        ((UploadLimiter_new 2 10000 2)
           \<lparr>recentUploadTimes := [25000, 5000, 5000], slowConnectionDetected := True\<rparr>)) = 3 \<and>
   \<not> slowConnectionDetected
     (recordUploadTime 35000 (recordUploadTime 10000 (recordUploadTime 10000
        (UploadLimiter_new 3 10000 2)))) \<and>
   maxUpload (recordUploadTime 50000 (UploadLimiter_new 3 10000 2)) = 3"
  using recordUploadTime_hysteresis
          [of 25000 "recordUploadTime 25000 (recordUploadTime 25000 (UploadLimiter_new 3 10000 2))"]
        recordUploadTime_hysteresis
          [of 5000 "(UploadLimiter_new 2 10000 2)
             \<lparr>recentUploadTimes := [25000, 5000, 5000], slowConnectionDetected := True\<rparr>"]
        recordUploadTime_hysteresis
          [of 35000 "recordUploadTime 10000 (recordUploadTime 10000 (UploadLimiter_new 3 10000 2))"]
        recordUploadTime_hysteresis [of 50000 "UploadLimiter_new 3 10000 2"]
  by (simp add: recordUploadTime_def UploadLimiter_new_def Let_def slice_last_def
      average_last3_def)

section \<open>Properties of wrapFetch\<close>

lemma releaseUploadSlot_fields:
  "uploading (fst (releaseUploadSlot u)) = uploading u - 1"
  "totalUploads (fst (releaseUploadSlot u)) = totalUploads u"
  "adaptive_state (fst (releaseUploadSlot u)) = adaptive_state u"
  "fallbackConcurrency (fst (releaseUploadSlot u)) = fallbackConcurrency u"
  by (simp_all add: releaseUploadSlot_def adaptive_state_def split: list.split)



lemma release_once_frame:
  "adaptive_state (limiterU (release_once s)) = adaptive_state (limiterU s)"
  "fallbackConcurrency (limiterU (release_once s)) = fallbackConcurrency (limiterU s)"
  "startTime (wcall (release_once s)) = startTime (wcall s)"
  "timeout (wcall (release_once s)) = timeout (wcall s)"
  "timerPending (wcall (release_once s)) = timerPending (wcall s)"
  "fetchPending (wcall (release_once s)) = fetchPending (wcall s)"
  using releaseUploadSlot_fields(3,4) [of "limiterU s"]
  by (simp_all add: release_once_def adaptive_state_def case_prod_beta)





lemma wf_begin_fields:
  "\<not> slotReleased (wcall (wrapFetch_begin now u))"
  "timerPending (wcall (wrapFetch_begin now u))"
  "fetchPending (wcall (wrapFetch_begin now u))"
  "limiterU (wrapFetch_begin now u) = u"
  "startTime (wcall (wrapFetch_begin now u)) = now"
  "timeout (wcall (wrapFetch_begin now u)) = getAdaptiveTimeout u"
  by (simp_all add: wrapFetch_begin_def)



lemma recordUploadTime_cong:
  assumes "adaptive_state u1 = adaptive_state u2"
    and "fallbackConcurrency u1 = fallbackConcurrency u2"
  shows "adaptive_state (recordUploadTime d u1) = adaptive_state (recordUploadTime d u2)"
  using assms by (simp add: adaptive_state_def recordUploadTime_def Let_def)

lemma wf_step_timeout_frame:
  assumes "wf_step TimeoutFires s = Some s'"
  shows "adaptive_state (limiterU s') = adaptive_state (limiterU s) \<and>
         fallbackConcurrency (limiterU s') = fallbackConcurrency (limiterU s) \<and>
         startTime (wcall s') = startTime (wcall s) \<and>
         timeout (wcall s') = timeout (wcall s) \<and>
         fetchPending (wcall s') = fetchPending (wcall s)"
  using assms by (auto simp add: release_once_frame split: if_splits)

lemma wf_step_rejects_frame:
  assumes "wf_step FetchRejects s = Some s'"
  shows "adaptive_state (limiterU s') = adaptive_state (limiterU s) \<and>
         \<not> fetchPending (wcall s')"
  using assms by (auto simp add: release_once_frame clearTimeout_def split: if_splits)

lemma wf_step_resolves_sample:
  assumes "wf_step (FetchResolves t) s = Some s'"
  shows "adaptive_state (limiterU s') =
           adaptive_state (recordUploadTime
             (min (real_of_int (t - startTime (wcall s))) (timeout (wcall s))) (limiterU s)) \<and>
         \<not> fetchPending (wcall s')"
proof -
  let ?s1 = "clearTimeout (s\<lparr>wcall := (wcall s)\<lparr>fetchPending := False\<rparr>\<rparr>)"
  let ?d = "min (real_of_int (t - startTime (wcall s))) (timeout (wcall s))"
  from assms have pend: "fetchPending (wcall s)" by (auto split: if_splits)
  have frame: "adaptive_state (limiterU (release_once ?s1)) = adaptive_state (limiterU s)"
    "fallbackConcurrency (limiterU (release_once ?s1)) = fallbackConcurrency (limiterU s)"
    "timeout (wcall (release_once ?s1)) = timeout (wcall s)"
    "\<not> fetchPending (wcall (release_once ?s1))"
    by (simp_all add: release_once_frame clearTimeout_def)
  from assms pend have s': "s' = (release_once ?s1)\<lparr>limiterU :=
      recordUploadTime ?d (limiterU (release_once ?s1))\<rparr>"
    by (simp add: Let_def frame(3))
  show ?thesis
    using recordUploadTime_cong [OF frame(1) frame(2)] frame(4) by (simp add: s')
qed

lemma wf_run_settled:
  assumes "wf_run es s = Some s'" and "\<not> fetchPending (wcall s)"
  shows "adaptive_state (limiterU s') = adaptive_state (limiterU s) \<and>
         set es \<subseteq> {TimeoutFires}"
  using assms
proof (induction es arbitrary: s)
  case Nil
  then show ?case by simp
next
  case (Cons e es)
  from Cons.prems(1) obtain s1 where step: "wf_step e s = Some s1" and rest: "wf_run es s1 = Some s'"
    by (auto split: option.splits)
  from step Cons.prems(2) have e: "e = TimeoutFires"
    by (cases e) (auto split: if_splits)
  from wf_step_timeout_frame [OF step [unfolded e]] Cons.prems(2)
  have "adaptive_state (limiterU s1) = adaptive_state (limiterU s)" "\<not> fetchPending (wcall s1)"
    by simp_all
  with Cons.IH [OF rest] e show ?case by simp
qed

lemma wf_run_samples:
  assumes "wf_run es s = Some s'"
  shows "((\<forall>e \<in> set es. \<not> is_resolve e) \<longrightarrow>
            adaptive_state (limiterU s') = adaptive_state (limiterU s)) \<and>
         (FetchRejects \<in> set es \<longrightarrow> (\<forall>e \<in> set es. \<not> is_resolve e)) \<and>
         (\<forall>t. FetchResolves t \<in> set es \<longrightarrow>
            adaptive_state (limiterU s') =
              adaptive_state (recordUploadTime
                (min (real_of_int (t - startTime (wcall s))) (timeout (wcall s))) (limiterU s)))"
  using assms
proof (induction es arbitrary: s)
  case Nil
  then show ?case by simp
next
  case (Cons e es)
  from Cons.prems obtain s1 where step: "wf_step e s = Some s1" and rest: "wf_run es s1 = Some s'"
    by (auto split: option.splits)
  show ?case
  proof (cases e)
    case TimeoutFires
    note fr = wf_step_timeout_frame [OF step [unfolded TimeoutFires]]
    have cong: "adaptive_state (recordUploadTime d (limiterU s1)) =
                adaptive_state (recordUploadTime d (limiterU s))" for d
      by (rule recordUploadTime_cong) (simp_all add: fr)
    from Cons.IH [OF rest] fr cong TimeoutFires show ?thesis by simp
  next
    case (FetchResolves t0)
    note sm = wf_step_resolves_sample [OF step [unfolded FetchResolves]]
    from wf_run_settled [OF rest] sm
    have after: "adaptive_state (limiterU s') = adaptive_state (limiterU s1)"
      and only: "set es \<subseteq> {TimeoutFires}" by simp_all
    from only have "FetchResolves t \<notin> set es" "FetchRejects \<notin> set es" for t by auto
    with after sm FetchResolves show ?thesis by auto
  next
    case FetchRejects
    note fr = wf_step_rejects_frame [OF step [unfolded FetchRejects]]
    from wf_run_settled [OF rest] fr
    have after: "adaptive_state (limiterU s') = adaptive_state (limiterU s1)"
      and only: "set es \<subseteq> {TimeoutFires}" by simp_all
    from only have "FetchResolves t \<notin> set es" "\<forall>e \<in> set es. \<not> is_resolve e" for t by auto
    with after fr FetchRejects show ?thesis by auto
  qed
qed

text \<open>
  C10. Over the events of one invocation of \<^verbatim>\<open>wrapFetch\<close>: when \<^verbatim>\<open>fetch\<close> rejects, and
  more generally when it does not resolve, \<^verbatim>\<open>recentUploadTimes\<close>,
  \<^verbatim>\<open>slowConnectionDetected\<close> and the limit are as they were when the invocation began;
  when \<^verbatim>\<open>fetch\<close> resolves at time \<open>t\<close>, they are what \<^verbatim>\<open>recordUploadTime\<close> makes of them
  for the sample \<^verbatim>\<open>min(t - startTime, timeout)\<close>.
\<close>

theorem wrapFetch_samples_only_resolved:
  assumes "wf_run es (wrapFetch_begin now u) = Some s"
  shows "(FetchRejects \<in> set es \<longrightarrow> adaptive_state (limiterU s) = adaptive_state u) \<and>
         ((\<forall>e \<in> set es. \<not> is_resolve e) \<longrightarrow> adaptive_state (limiterU s) = adaptive_state u) \<and>
         (\<forall>t. FetchResolves t \<in> set es \<longrightarrow>
            adaptive_state (limiterU s) =
              adaptive_state (recordUploadTime
                (min (real_of_int (t - now)) (getAdaptiveTimeout u)) u))"
  using wf_run_samples [OF assms] by (simp add: wf_begin_fields)

theorem wrapFetch_samples_only_resolved_witness:
  "map_option (\<lambda>s. adaptive_state (limiterU s))
     (wf_run [TimeoutFires, FetchRejects]
        (wrapFetch_begin 1000 ((UploadLimiter_new 3 10000 2)
           \<lparr>uploading := 1, recentUploadTimes := [25000, 25000, 30000]\<rparr>)))
   = Some ([25000, 25000, 30000], False, 3) \<and>
   map_option (\<lambda>s. adaptive_state (limiterU s))
     (wf_run [TimeoutFires, FetchResolves 31000]
        (wrapFetch_begin 1000 ((UploadLimiter_new 3 10000 2)
           \<lparr>uploading := 1, recentUploadTimes := [25000, 25000, 30000]\<rparr>)))
   = Some ([25000, 25000, 30000, 30000], True, 2)"
proof -
  let ?u = "(UploadLimiter_new 3 10000 2)\<lparr>uploading := 1, recentUploadTimes := [25000, 25000, 30000]\<rparr>"
  have "\<exists>s. wf_run [TimeoutFires, FetchRejects] (wrapFetch_begin 1000 ?u) = Some s"
    by (simp add: wrapFetch_begin_def clearTimeout_def release_once_frame)
  then obtain s1 where run1: "wf_run [TimeoutFires, FetchRejects] (wrapFetch_begin 1000 ?u) = Some s1"
    by blast
  have "\<exists>s. wf_run [TimeoutFires, FetchResolves 31000] (wrapFetch_begin 1000 ?u) = Some s"
    by (simp add: wrapFetch_begin_def Let_def release_once_frame)
  then obtain s2 where run2: "wf_run [TimeoutFires, FetchResolves 31000] (wrapFetch_begin 1000 ?u) = Some s2"
    by blast
  have t: "getAdaptiveTimeout ?u = 160000 / 3"
    by (simp add: getAdaptiveTimeout_def UploadLimiter_new_def slice_last_def)
  from wrapFetch_samples_only_resolved [OF run1] wrapFetch_samples_only_resolved [OF run2]
  show ?thesis
    unfolding run1 run2 t
    by (simp add: adaptive_state_def recordUploadTime_def UploadLimiter_new_def
        Let_def slice_last_def)
qed

section \<open>Properties of the rate limiter\<close>

lemma refill_fields:
  "rpm (refill now r) = rpm r"
  "tokens (refill now r) =
     min (rpm r) (tokens r + (real_of_int (now - lastRefill r) / 60000) * rpm r)"
  "lastRefill (refill now r) = (if 1000 \<le> now - lastRefill r then now else lastRefill r)"
  by (simp_all add: refill_def Let_def)

lemma refill_bounds:
  assumes "0 \<le> tokens r" and "tokens r \<le> rpm r" and "lastRefill r \<le> now"
  shows "tokens r \<le> tokens (refill now r)" and "tokens (refill now r) \<le> rpm r"
    and "tokens (refill now r) \<le> tokens r + real_of_int (now - lastRefill r) * rpm r / 60000"
proof -
  from assms have "0 \<le> rpm r" by simp
  moreover from assms have "0 \<le> real_of_int (now - lastRefill r)" by simp
  ultimately have add: "0 \<le> (real_of_int (now - lastRefill r) / 60000) * rpm r"
    by simp
  show "tokens r \<le> tokens (refill now r)"
    using add assms(2) by (simp add: refill_fields)
  show "tokens (refill now r) \<le> rpm r"
    by (simp add: refill_fields)
  show "tokens (refill now r) \<le> tokens r + real_of_int (now - lastRefill r) * rpm r / 60000"
    by (simp add: refill_fields)
qed

lemma acquire_fields:
  "rpm (fst (acquire now r)) = rpm r"
  "lastRefill (fst (acquire now r)) = lastRefill (refill now r)"
  "tokens (fst (acquire now r)) =
     (if 1 \<le> tokens (refill now r) then tokens (refill now r) - 1 else tokens (refill now r))"
  by (simp_all add: acquire_def Let_def refill_fields)

lemma acquire_whole_fields:
  "rpm (acquire_whole now r) = rpm r"
  "tokens (acquire_whole now r) =
     (if 1 \<le> tokens (refill now r) then tokens (refill now r) - 1 else 0)"
  "lastRefill (acquire_whole now r) = lastRefill (refill now r)"
  by (simp_all add: acquire_whole_def acquire_def acquire_resume_def Let_def refill_fields)

text \<open>
  C7 (as amended). With a clock that does not run backwards, \<open>0 \<le> tokens \<le> rpm\<close> holds
  after the refill, when \<^verbatim>\<open>acquire()\<close> suspends or returns, and when it resumes after
  the sleep. One call credits at most \<open>(now - lastRefill) * rpm / 60000\<close> tokens, and
  it moves \<^verbatim>\<open>lastRefill\<close> to \<open>now\<close> exactly when at least 1000 ms have passed since
  \<^verbatim>\<open>lastRefill\<close>. (A call that leaves \<^verbatim>\<open>lastRefill\<close> in place has its interval credited
  again by the next call, so the credits of several calls are not bounded by the
  time that has passed.)
\<close>

theorem acquire_keeps_bucket_bounds:
  assumes "0 \<le> tokens r" and "tokens r \<le> rpm r" and "lastRefill r \<le> now"
  shows "0 \<le> tokens (fst (acquire now r)) \<and> tokens (fst (acquire now r)) \<le> rpm r \<and>
         0 \<le> tokens (acquire_resume (fst (acquire now r))) \<and>
         tokens (acquire_resume (fst (acquire now r))) \<le> rpm r \<and>
         0 \<le> tokens (acquire_whole now r) \<and> tokens (acquire_whole now r) \<le> rpm r \<and>
         rpm (acquire_whole now r) = rpm r \<and>
         0 \<le> credited now r \<and>
         credited now r \<le> real_of_int (now - lastRefill r) * rpm r / 60000 \<and>
         lastRefill (acquire_whole now r) =
           (if 1000 \<le> now - lastRefill r then now else lastRefill r)"
proof -
  note b = refill_bounds [OF assms]
  from assms have cap: "0 \<le> rpm r" by simp
  have "0 \<le> tokens (fst (acquire now r))"
    using b(1) assms(1) by (simp add: acquire_fields)
  moreover have "tokens (fst (acquire now r)) \<le> rpm r"
    using b(2) by (simp add: acquire_fields)
  moreover have "0 \<le> tokens (acquire_resume (fst (acquire now r)))"
    "tokens (acquire_resume (fst (acquire now r))) \<le> rpm r"
    using cap by (simp_all add: acquire_resume_def)
  moreover have "0 \<le> tokens (acquire_whole now r)"
    by (simp add: acquire_whole_fields)
  moreover have "tokens (acquire_whole now r) \<le> rpm r"
    using b(2) cap by (simp add: acquire_whole_fields)
  moreover have "0 \<le> credited now r"
    using b(1) by (simp add: credited_def)
  moreover have "credited now r \<le> real_of_int (now - lastRefill r) * rpm r / 60000"
    using b(3) by (simp add: credited_def)
  ultimately show ?thesis
    by (simp add: acquire_whole_fields refill_fields)
qed

theorem acquire_keeps_bucket_bounds_witness:
  "tokens (acquire_whole 600 (acquire_whole 0 (RateLimiter_new 10 0))) = 81 / 10 \<and>
   credited 600 (acquire_whole 0 (RateLimiter_new 10 0)) = 1 / 10 \<and>
   lastRefill (acquire_whole 600 (acquire_whole 0 (RateLimiter_new 10 0))) = 0"
  using acquire_keeps_bucket_bounds [of "acquire_whole 0 (RateLimiter_new 10 0)" 600]
  by (simp add: acquire_whole_fields refill_fields credited_def RateLimiter_new_def)

text \<open>
  C7 as stated fails: a limiter of 10 requests per minute created at time 0 and called
  at 0, 600 and 900 ms credits 0.25 tokens in all, more than the 0.15 that 900 ms
  allow at 10 tokens per 60000 ms; \<^verbatim>\<open>lastRefill\<close> stays at 0 throughout.
\<close>

theorem refill_total_counterexample:
  "\<not> total_credited [0, 600, 900] (RateLimiter_new 10 0) \<le> real_of_int (900 - 0) * 10 / 60000"
  by (simp add: credited_def acquire_whole_fields refill_fields RateLimiter_new_def)

section \<open>Properties of the retry loop\<close>

lemma includes_str_sublist: "includes_str s sub \<longleftrightarrow> sublist sub s"
  by (induction s) (simp_all add: sublist_Cons_right)

lemma isRetryable_iff:
  "isRetryable m \<longleftrightarrow>
     sublist ''524'' m \<or> sublist ''timeout'' (toLowerCase m) \<or>
     sublist ''502'' m \<or> sublist ''503'' m \<or> sublist ''504'' m"
  by (simp add: isRetryable_def Let_def includes_str_sublist)


lemma show_nat_503: "show_nat 503 = ''503''"
  by code_simp

lemma status_503_message:
  "FalSeedreamAPI_generate (Status 503 body) = Inl (''FAL API error 503: '' @ take 200 body)"
  by (simp add: FalSeedreamAPI_generate_def show_nat_503)

lemma status_503_retryable: "isRetryable (''FAL API error 503: '' @ take 200 body)"
proof -
  have "sublist ''503'' (''FAL API error '' @ ''503'' @ ('': '' @ take 200 body))"
    by (rule sublist_appendI)
  then show ?thesis
    by (simp add: isRetryable_iff)
qed

lemma generate_loop_last:
  "generate_loop gen p refs 3 le = ([Generate p refs], FalSeedreamAPI_generate (gen 3))"
  by (subst generate_loop.simps) (simp split: sum.split)

lemma generate_loop_second:
  "generate_loop gen p refs 2 le =
     (if \<not> retried gen 2 then ([Generate p refs], FalSeedreamAPI_generate (gen 2))
      else ([Generate p refs, Sleep 2000, Generate p refs], FalSeedreamAPI_generate (gen 3)))"
  by (subst generate_loop.simps)
     (auto simp add: retried_def generate_loop_last split: sum.split)

lemma generate_loop_unrolled:
  "generate_loop gen p refs 1 None =
     (if \<not> retried gen 1 then ([Generate p refs], FalSeedreamAPI_generate (gen 1))
      else if \<not> retried gen 2
      then ([Generate p refs, Sleep 1000, Generate p refs], FalSeedreamAPI_generate (gen 2))
      else ([Generate p refs, Sleep 1000, Generate p refs, Sleep 2000, Generate p refs],
            FalSeedreamAPI_generate (gen 3)))"
  by (subst generate_loop.simps)
     (auto simp add: retried_def generate_loop_second numeral_2_eq_2 [symmetric]
        split: sum.split)

lemma generate_loop_counts:
  "generate_calls (fst (generate_loop gen p refs 1 None)) \<le> 3 \<and>
   sleeps (fst (generate_loop gen p refs 1 None)) =
     take (generate_calls (fst (generate_loop gen p refs 1 None)) - 1) [1000, 2000] \<and>
   error_texts (fst (generate_loop gen p refs 1 None)) = [] \<and>
   video_calls (fst (generate_loop gen p refs 1 None)) = 0"
  unfolding generate_loop_unrolled by simp

text \<open>
  C2 (as amended). The generation retry loop makes at most 3 attempts. An attempt that
  fails with a retryable error is followed by a sleep of 1 s after the first attempt
  and of 2 s after the second (the third delay of the table, 4 s, is never used) and
  by the next attempt; any other outcome of an attempt, and any outcome of the third,
  ends the loop at once. An error is retryable iff its message contains 524, 502, 503
  or 504, or contains ``timeout'' in any letter case. A 503 response is attempted 3
  times, with sleeps of 1 s and 2 s, before its error surfaces; a 400 response whose
  message has none of these signals ends the loop at the first attempt with no sleep.
\<close>

theorem generate_loop_retry_policy:
  "generate_loop gen p refs 1 None =
     (if \<not> retried gen 1 then ([Generate p refs], FalSeedreamAPI_generate (gen 1))
      else if \<not> retried gen 2
      then ([Generate p refs, Sleep 1000, Generate p refs], FalSeedreamAPI_generate (gen 2))
      else ([Generate p refs, Sleep 1000, Generate p refs, Sleep 2000, Generate p refs],
            FalSeedreamAPI_generate (gen 3))) \<and>
   generate_calls (fst (generate_loop gen p refs 1 None)) \<le> 3 \<and>
   sleeps (fst (generate_loop gen p refs 1 None)) =
     take (generate_calls (fst (generate_loop gen p refs 1 None)) - 1) [1000, 2000] \<and>
   (isRetryable m \<longleftrightarrow>
      sublist ''524'' m \<or> sublist ''timeout'' (toLowerCase m) \<or>
      sublist ''502'' m \<or> sublist ''503'' m \<or> sublist ''504'' m) \<and>
   generate_loop (\<lambda>n. Status 503 body) p refs 1 None =
     ([Generate p refs, Sleep 1000, Generate p refs, Sleep 2000, Generate p refs],
      Inl (''FAL API error 503: '' @ take 200 body)) \<and>
   (\<not> isRetryable (''FAL API error 400: '' @ take 200 body4) \<longrightarrow>
      generate_loop (\<lambda>n. Status 400 body4) p refs 1 None =
        ([Generate p refs], Inl (''FAL API error 400: '' @ take 200 body4)))"
proof -
  have r503: "retried (\<lambda>n. Status 503 body) k" for k
    unfolding retried_def status_503_message using status_503_retryable [of body] by simp
  have "show_nat 400 = ''400''" by code_simp
  then have m400: "FalSeedreamAPI_generate (Status 400 body4) =
                   Inl (''FAL API error 400: '' @ take 200 body4)"
    by (simp add: FalSeedreamAPI_generate_def)
  have r400: "\<not> isRetryable (''FAL API error 400: '' @ take 200 body4) \<Longrightarrow>
              \<not> retried (\<lambda>n. Status 400 body4) 1"
    unfolding retried_def m400 by simp
  have a: "generate_loop (\<lambda>n. Status 503 body) p refs 1 None =
     ([Generate p refs, Sleep 1000, Generate p refs, Sleep 2000, Generate p refs],
      Inl (''FAL API error 503: '' @ take 200 body))"
    unfolding generate_loop_unrolled status_503_message using r503 by simp
  have b: "\<not> isRetryable (''FAL API error 400: '' @ take 200 body4) \<longrightarrow>
      generate_loop (\<lambda>n. Status 400 body4) p refs 1 None =
        ([Generate p refs], Inl (''FAL API error 400: '' @ take 200 body4))"
    unfolding generate_loop_unrolled m400 using r400 by simp
  show ?thesis
    using generate_loop_unrolled [of gen p refs] generate_loop_counts [of gen p refs]
      isRetryable_iff [of m] a b
    by blast
qed

theorem generate_loop_retry_policy_witness:
  "generate_loop (\<lambda>n. Status 400 ''Bad Request'') (Some ''a portrait'') [] 1 None =
     ([Generate (Some ''a portrait'') []], Inl ''FAL API error 400: Bad Request'') \<and>
   generate_loop (\<lambda>n. Status 503 ''Service Unavailable'') (Some ''a portrait'') [] 1 None =
     ([Generate (Some ''a portrait'') [], Sleep 1000, Generate (Some ''a portrait'') [],
       Sleep 2000, Generate (Some ''a portrait'') []],
      Inl ''FAL API error 503: Service Unavailable'')"
proof -
  have nr: "\<not> isRetryable (''FAL API error 400: '' @ take 200 ''Bad Request'')"
    by code_simp
  note policy = generate_loop_retry_policy
         [where body = "''Service Unavailable''" and ?body4.0 = "''Bad Request''"
            and p = "Some ''a portrait''" and refs = "[]"]
  from policy [THEN conjunct2, THEN conjunct2, THEN conjunct2, THEN conjunct2] nr
  show ?thesis by (simp del: One_nat_def)
qed

text \<open>
  C2 as stated fails: a 500 response, a 5xx status, is not retried (one attempt, no
  sleep), and the three attempts at a 503 response sleep 1 s and 2 s only, never 4 s.
\<close>

theorem generate_loop_5xx_counterexample:
  "generate_loop (\<lambda>n. Status 500 ''Internal Server Error'') (Some ''a portrait'') [] 1 None =
     ([Generate (Some ''a portrait'') []], Inl ''FAL API error 500: Internal Server Error'') \<and>
   sleeps (fst (generate_loop (\<lambda>n. Status 503 ''Service Unavailable'')
                  (Some ''a portrait'') [] 1 None)) = [1000, 2000]"
  by code_simp

section \<open>Properties of processPrompt\<close>

lemma bindR_simps:
  "bindR (tr, Inl e) f = (tr, Inl e)"
  "bindR (tr, Inr x) f = (tr @ fst (f x), snd (f x))"
  "bindR (ret x) f = f x"
  by (simp_all add: bindR_def ret_def case_prod_beta)


lemma generate_calls_append: "generate_calls (xs @ ys) = generate_calls xs + generate_calls ys"
  by (induction xs rule: generate_calls.induct) simp_all

lemma video_calls_append: "video_calls (xs @ ys) = video_calls xs + video_calls ys"
  by (induction xs rule: video_calls.induct) simp_all





lemma round_js_bounds:
  "0 \<le> x \<Longrightarrow> 0 \<le> round_js x"
  "x \<le> real_of_int n \<Longrightarrow> round_js x \<le> n"
  by (simp_all add: round_js_def le_floor_iff floor_le_iff)

lemma makeProgressBar_fits:
  assumes "0 \<le> percentage" and "percentage \<le> 100" and "30 \<le> maxLen"
  shows "\<exists>bar. makeProgressBar maxLen percentage 30 = Inr bar"
proof -
  let ?filled = "round_js ((real_of_int percentage / 100) * real_of_int 30)"
  from assms(1) have "0 \<le> (real_of_int percentage / 100) * real_of_int 30" by simp
  then have lo: "0 \<le> ?filled" by (rule round_js_bounds(1))
  from assms(2) have "(real_of_int percentage / 100) * real_of_int 30 \<le> real_of_int 30"
    by simp
  then have hi: "?filled \<le> 30" by (rule round_js_bounds(2))
  from lo hi assms(3) show ?thesis
    by (simp add: makeProgressBar_def repeat_char_def Let_def)
qed

lemma showProgress_fits:
  assumes "0 \<le> processedPrompts p" and "processedPrompts p \<le> totalPrompts p" and "30 \<le> maxLen"
  shows "showProgress maxLen p = None"
proof -
  let ?pc = "if totalPrompts p > 0
             then round_js ((real_of_int (processedPrompts p) / real_of_int (totalPrompts p)) * 100)
             else 0"
  have lo: "0 \<le> ?pc"
    using assms(1) by (auto intro!: round_js_bounds(1))
  have hi: "?pc \<le> 100"
  proof (cases "totalPrompts p > 0")
    case True
    with assms(2)
    have "(real_of_int (processedPrompts p) / real_of_int (totalPrompts p)) * 100
            \<le> real_of_int 100"
      by (simp add: divide_le_eq)
    then have "round_js ((real_of_int (processedPrompts p) / real_of_int (totalPrompts p)) * 100)
                 \<le> 100"
      by (rule round_js_bounds(2))
    with True show ?thesis by simp
  next
    case False
    then show ?thesis by simp
  qed
  from makeProgressBar_fits [OF lo hi assms(3)] obtain bar
    where "makeProgressBar maxLen ?pc 30 = Inr bar" by blast
  then show ?thesis
    by (simp add: showProgress_def Let_def)
qed

text \<open>
  While the tracker has counted fewer prompts than the total of the page, and the
  engine can build a string of 30 characters, \<^verbatim>\<open>increment\<close> returns.
\<close>

lemma increment_returns:
  assumes "0 \<le> processedPrompts p" and "processedPrompts p < totalPrompts p" and "30 \<le> maxLen"
  shows "snd (increment maxLen now ok p) = None"
proof -
  let ?p2 = "fst (increment maxLen now ok p)"
  have "showProgress maxLen q = None"
    if "processedPrompts q = processedPrompts p + 1" "totalPrompts q = totalPrompts p" for q
    using that assms by (intro showProgress_fits) simp_all
  then show ?thesis
    by (simp add: increment_def Let_def)
qed

lemma canProceed_fields:
  "totalBreaks (snd (canProceed now b)) = totalBreaks b"
  "lastFailure (snd (canProceed now b)) = lastFailure b"
  "threshold (snd (canProceed now b)) = threshold b"
  "cooldownMs (snd (canProceed now b)) = cooldownMs b"
  "failures (snd (canProceed now b)) = failures b \<or> failures (snd (canProceed now b)) = 0"
  "\<not> fst (canProceed now b) \<Longrightarrow> snd (canProceed now b) = b"
  by (auto simp add: canProceed_def Let_def split: if_splits)


lemma processPrompt_try_fails:
  assumes "try_block w r cfg base = (tr, Inl m)"
    and "fst (canProceed (w_nowCanProceed w) b)"
  shows "processPrompt w (Some b) tracker r base cfg =
           catch_block w (rec_id r) (Some (snd (canProceed (w_nowCanProceed w) b))) tracker tr m"
  using assms by (simp add: processPrompt_def Let_def case_prod_beta)




lemma video_loop_last:
  "video_loop gv (img # imgs) p 2 le = ([GenerateVideo img p], FalSeedreamAPI_generateVideo (gv 2))"
  by (subst video_loop.simps) (simp split: sum.split)

lemma video_loop_unrolled:
  "video_loop gv (img # imgs) p 1 None =
     (case FalSeedreamAPI_generateVideo (gv 1) of
        Inr video \<Rightarrow> ([GenerateVideo img p], Inr video)
      | Inl message \<Rightarrow>
          if isVideoRetryable message
          then ([GenerateVideo img p, Sleep 5000, GenerateVideo img p],
                FalSeedreamAPI_generateVideo (gv 2))
          else ([GenerateVideo img p], Inl message))"
  by (subst video_loop.simps)
     (auto simp add: video_loop_last numeral_2_eq_2 [symmetric] split: sum.split)

lemma video_loop_no_images:
  "video_loop gv [] p 1 None = ([], Inl ''Cannot read properties of undefined (reading 'url')'')"
  by (subst video_loop.simps) simp

lemma video_loop_calls:
  "generate_calls (fst (video_loop gv images p 1 None)) = 0"
  "1 \<le> video_calls (fst (video_loop gv (img # imgs) p 1 None))"
proof -
  show "generate_calls (fst (video_loop gv images p 1 None)) = 0"
  proof (cases images)
    case Nil
    then show ?thesis unfolding Nil video_loop_no_images by simp
  next
    case (Cons i rest)
    show ?thesis unfolding Cons video_loop_unrolled by (simp split: sum.split)
  qed
  show "1 \<le> video_calls (fst (video_loop gv (img # imgs) p 1 None))"
    unfolding video_loop_unrolled by (simp split: sum.split)
qed

lemma video_section_trace:
  "fst (video_section w promptId cfg images p) =
     fst (video_loop (w_generateVideo w) images p 1 None) @
     (case snd (video_loop (w_generateVideo w) images p 1 None) of
        Inl message \<Rightarrow>
          [StoreUpdate promptId
             [(''Error Message'', FText (''Video generation failed: '' @ message))]]
      | Inr video \<Rightarrow>
          Download video (join (downloadsDir cfg) (promptId @ ''_video.mp4'')) #
          StoreUpdate promptId [(''Generated_Videos'', FUrls [video])] #
          (case w_saveVideo w of
             Inl message \<Rightarrow>
               [StoreUpdate promptId
                  [(''Error Message'', FText (''Video generation failed: '' @ message))]]
           | Inr u \<Rightarrow> []))"
  by (cases "video_loop (w_generateVideo w) images p 1 None")
     (simp add: video_section_def bindR_def call_def split: sum.split del: One_nat_def)

lemma video_section_calls:
  "generate_calls (fst (video_section w promptId cfg images p)) = 0"
  "1 \<le> video_calls (fst (video_section w promptId cfg (img # imgs) p))"
proof -
  show "generate_calls (fst (video_section w promptId cfg images p)) = 0"
    unfolding video_section_trace generate_calls_append
    by (simp add: video_loop_calls(1) split: sum.split del: One_nat_def)
  show "1 \<le> video_calls (fst (video_section w promptId cfg (img # imgs) p))"
    unfolding video_section_trace video_calls_append
    using video_loop_calls(2) [of "w_generateVideo w" img imgs p]
    by (simp del: One_nat_def)
qed

lemma try_block_existing:
  assumes "Generated_Images r = Some (img # imgs)"
  shows "try_block w r cfg base =
           (if enableVideo cfg
            then bindR (video_section w (rec_id r) cfg (img # imgs)
                          (if truthy (Video_Prompt r) then Video_Prompt r else Prompt r))
                   (\<lambda>u. ret (img # imgs))
            else ret (img # imgs))"
  by (simp add: try_block_def assms bindR_simps)

lemma try_block_existing_calls:
  assumes "Generated_Images r = Some (img # imgs)"
  shows "generate_calls (fst (try_block w r cfg base)) = 0"
    and "enableVideo cfg \<Longrightarrow> 1 \<le> video_calls (fst (try_block w r cfg base))"
    and "\<not> enableVideo cfg \<Longrightarrow> try_block w r cfg base = ([], Inr (img # imgs))"
proof -
  let ?p = "if truthy (Video_Prompt r) then Video_Prompt r else Prompt r"
  obtain tr out where vs: "video_section w (rec_id r) cfg (img # imgs) ?p = (tr, out)"
    by (cases "video_section w (rec_id r) cfg (img # imgs) ?p")
  from video_section_calls(1) [where w = w and promptId = "rec_id r" and cfg = cfg
           and images = "img # imgs" and p = ?p]
       video_section_calls(2) [where w = w and promptId = "rec_id r" and cfg = cfg
           and img = img and imgs = imgs and p = ?p] vs
  have c: "generate_calls tr = 0" "1 \<le> video_calls tr" by simp_all
  show "generate_calls (fst (try_block w r cfg base)) = 0"
    using c(1) by (cases out) (simp_all add: try_block_existing [OF assms] vs bindR_def ret_def)
  show "enableVideo cfg \<Longrightarrow> 1 \<le> video_calls (fst (try_block w r cfg base))"
    using c(2) by (cases out) (simp_all add: try_block_existing [OF assms] vs bindR_def ret_def)
  show "\<not> enableVideo cfg \<Longrightarrow> try_block w r cfg base = ([], Inr (img # imgs))"
    by (simp add: try_block_existing [OF assms] ret_def)
qed

lemma video_section_first_call:
  "take 1 (fst (video_section w promptId cfg (img # imgs) p)) = [GenerateVideo img p]"
proof -
  have "take 1 (fst (video_loop (w_generateVideo w) (img # imgs) p 1 None)) = [GenerateVideo img p]"
    unfolding video_loop_unrolled by (simp split: sum.split)
  then obtain rest
    where "fst (video_loop (w_generateVideo w) (img # imgs) p 1 None) = GenerateVideo img p # rest"
    by (cases "fst (video_loop (w_generateVideo w) (img # imgs) p 1 None)") simp_all
  then show ?thesis
    unfolding video_section_trace by simp
qed

lemma video_section_outcome:
  "w_saveVideoError w = Inr () \<Longrightarrow> snd (video_section w promptId cfg images p) = Inr ()"
  by (cases "video_loop (w_generateVideo w) images p 1 None")
     (simp add: video_section_def bindR_def call_def split: sum.split del: One_nat_def)

lemma try_block_existing_video:
  assumes "Generated_Images r = Some (img # imgs)" and "enableVideo cfg"
  shows "fst (try_block w r cfg base) =
           fst (video_section w (rec_id r) cfg (img # imgs)
                  (if truthy (Video_Prompt r) then Video_Prompt r else Prompt r))"
    and "snd (try_block w r cfg base) =
           (case snd (video_section w (rec_id r) cfg (img # imgs)
                        (if truthy (Video_Prompt r) then Video_Prompt r else Prompt r)) of
              Inl m \<Rightarrow> Inl m | Inr u \<Rightarrow> Inr (img # imgs))"
proof -
  let ?vs = "video_section w (rec_id r) cfg (img # imgs)
               (if truthy (Video_Prompt r) then Video_Prompt r else Prompt r)"
  obtain tr out where vs: "?vs = (tr, out)" by (cases ?vs)
  show "fst (try_block w r cfg base) = fst ?vs"
    by (cases out) (simp_all add: try_block_existing [OF assms(1)] assms(2) vs bindR_def ret_def)
  show "snd (try_block w r cfg base) = (case snd ?vs of Inl m \<Rightarrow> Inl m | Inr u \<Rightarrow> Inr (img # imgs))"
    by (cases out) (simp_all add: try_block_existing [OF assms(1)] assms(2) vs bindR_def ret_def)
qed

lemma catch_block_trace:
  "\<exists>extra. snd (snd (snd (catch_block w promptId cb p tr m))) = tr @ extra \<and>
           generate_calls extra = 0 \<and> video_calls extra = 0"
proof (cases "isTransient m")
  case True
  then have "snd (snd (snd (catch_block w promptId cb p tr m))) = tr @ []"
    by (simp add: catch_block_def case_prod_beta split: option.split)
  then show ?thesis by (intro exI [of _ "[]"]) simp
next
  case False
  then have "snd (snd (snd (catch_block w promptId cb p tr m))) =
               tr @ [StoreUpdate promptId [(''Error Message'', FText (take 200 m))]]"
    by (simp add: catch_block_def Let_def case_prod_beta split: option.split)
  then show ?thesis
    by (intro exI [of _ "[StoreUpdate promptId [(''Error Message'', FText (take 200 m))]]"]) simp
qed

lemma processPrompt_trace:
  assumes "fst (canProceed (w_nowCanProceed w) b)"
  shows "\<exists>extra. snd (snd (snd (processPrompt w (Some b) tracker r base cfg))) =
                   fst (try_block w r cfg base) @ extra \<and>
                 generate_calls extra = 0 \<and> video_calls extra = 0"
proof -
  let ?cb = "Some (snd (canProceed (w_nowCanProceed w) b))"
  let ?inc = "increment (w_maxStringLength w) (w_nowProgress w) True tracker"
  obtain tr out where tb: "try_block w r cfg base = (tr, out)"
    by (cases "try_block w r cfg base")
  show ?thesis
  proof (cases out)
    case (Inl m)
    with tb assms
    have "processPrompt w (Some b) tracker r base cfg = catch_block w (rec_id r) ?cb tracker tr m"
      by (simp add: processPrompt_def Let_def case_prod_beta)
    with catch_block_trace [of w "rec_id r" ?cb tracker tr m] tb show ?thesis by simp
  next
    case (Inr images)
    show ?thesis
    proof (cases "snd ?inc")
      case None
      with tb Inr assms
      have "snd (snd (snd (processPrompt w (Some b) tracker r base cfg))) = tr @ []"
        by (simp add: processPrompt_def Let_def case_prod_beta)
      with tb show ?thesis by (intro exI [of _ "[]"]) simp
    next
      case (Some thrown)
      with tb Inr assms
      have "processPrompt w (Some b) tracker r base cfg =
              catch_block w (rec_id r) ?cb (fst ?inc) tr thrown"
        by (simp add: processPrompt_def Let_def case_prod_beta)
      with catch_block_trace [of w "rec_id r" ?cb "fst ?inc" tr thrown] tb show ?thesis by simp
    qed
  qed
qed

lemma processPrompt_open:
  assumes "\<not> fst (canProceed (w_nowCanProceed w) b)"
  shows "processPrompt w (Some b) tracker r base cfg =
           (Inr (Failure (rec_id r) ''Circuit breaker open'' True), Some b, tracker, [])"
  using assms by (simp add: processPrompt_def Let_def case_prod_beta canProceed_fields(6))

lemma processPrompt_try_succeeds:
  assumes "try_block w r cfg base = (tr, Inr images)"
    and "fst (canProceed (w_nowCanProceed w) b)"
    and "snd (increment (w_maxStringLength w) (w_nowProgress w) True tracker) = None"
  shows "processPrompt w (Some b) tracker r base cfg =
           (Inr (Success (rec_id r) (int (length images))),
            Some (recordSuccess (snd (canProceed (w_nowCanProceed w) b))),
            fst (increment (w_maxStringLength w) (w_nowProgress w) True tracker), tr)"
  using assms by (simp add: processPrompt_def Let_def case_prod_beta split: option.split)

lemma recordSuccess_after_canProceed:
  assumes "fst (canProceed now b)" and "0 \<le> failures b"
  shows "recordSuccess (snd (canProceed now b)) = b\<lparr>failures := 0\<rparr>"
  using assms by (auto simp add: canProceed_def recordSuccess_def Let_def split: if_splits)

text \<open>
  C3 (as amended). Take a job whose record already contains image URLs. In every case
  \<^verbatim>\<open>processPrompt\<close> makes no image-generation call. If the breaker is open, the job is
  not processed: the result is the failure ``Circuit breaker open'', with no external
  call and the breaker and the tracker unchanged. Otherwise, provided
  \<^verbatim>\<open>progressTracker.increment(true)\<close> returns, which it does while the tracker has counted
  fewer prompts than the total of the page: with video generation disabled there is
  no external call at all, the result is a success with the number of existing
  images, and the success is recorded on the breaker, which resets the failure counter
  to 0 and leaves every other field of the breaker as it is. With video generation
  enabled the first external call is the video request for the first existing image
  with the video prompt; when the video section ends without an error, as it does
  whenever the store accepts the video error text, the result is again a success with
  the number of existing images, recorded on the breaker; when it ends with an error,
  that error goes through the outer \<^verbatim>\<open>catch\<close> block.
\<close>

theorem existing_images_skip_generation:
  assumes "Generated_Images r = Some (img # imgs)"
  shows "generate_calls (snd (snd (snd (processPrompt w (Some b) tracker r base cfg)))) = 0 \<and>
         (\<not> fst (canProceed (w_nowCanProceed w) b) \<longrightarrow>
            processPrompt w (Some b) tracker r base cfg =
              (Inr (Failure (rec_id r) ''Circuit breaker open'' True), Some b, tracker, [])) \<and>
         (fst (canProceed (w_nowCanProceed w) b) \<and> \<not> enableVideo cfg \<and>
          snd (increment (w_maxStringLength w) (w_nowProgress w) True tracker) = None \<longrightarrow>
            processPrompt w (Some b) tracker r base cfg =
              (Inr (Success (rec_id r) (int (length (img # imgs)))),
               Some (recordSuccess (snd (canProceed (w_nowCanProceed w) b))),
               fst (increment (w_maxStringLength w) (w_nowProgress w) True tracker),
               [])) \<and>
         (fst (canProceed (w_nowCanProceed w) b) \<and> 0 \<le> failures b \<longrightarrow>
            recordSuccess (snd (canProceed (w_nowCanProceed w) b)) = b\<lparr>failures := 0\<rparr>) \<and>
         (fst (canProceed (w_nowCanProceed w) b) \<and> enableVideo cfg \<longrightarrow>
            take 1 (snd (snd (snd (processPrompt w (Some b) tracker r base cfg)))) =
              [GenerateVideo img (if truthy (Video_Prompt r) then Video_Prompt r else Prompt r)]) \<and>
         (fst (canProceed (w_nowCanProceed w) b) \<and> enableVideo cfg \<and>
          snd (video_section w (rec_id r) cfg (img # imgs)
                 (if truthy (Video_Prompt r) then Video_Prompt r else Prompt r)) = Inr () \<and>
          snd (increment (w_maxStringLength w) (w_nowProgress w) True tracker) = None \<longrightarrow>
            processPrompt w (Some b) tracker r base cfg =
              (Inr (Success (rec_id r) (int (length (img # imgs)))),
               Some (recordSuccess (snd (canProceed (w_nowCanProceed w) b))),
               fst (increment (w_maxStringLength w) (w_nowProgress w) True tracker),
               fst (video_section w (rec_id r) cfg (img # imgs)
                      (if truthy (Video_Prompt r) then Video_Prompt r else Prompt r)))) \<and>
         (w_saveVideoError w = Inr () \<longrightarrow>
            snd (video_section w (rec_id r) cfg (img # imgs)
                   (if truthy (Video_Prompt r) then Video_Prompt r else Prompt r)) = Inr ()) \<and>
         (fst (canProceed (w_nowCanProceed w) b) \<and> enableVideo cfg \<and>
          snd (video_section w (rec_id r) cfg (img # imgs)
                 (if truthy (Video_Prompt r) then Video_Prompt r else Prompt r)) = Inl m \<longrightarrow>
            processPrompt w (Some b) tracker r base cfg =
              catch_block w (rec_id r) (Some (snd (canProceed (w_nowCanProceed w) b))) tracker
                (fst (video_section w (rec_id r) cfg (img # imgs)
                        (if truthy (Video_Prompt r) then Video_Prompt r else Prompt r))) m) \<and>
         (0 \<le> processedPrompts q \<and> processedPrompts q < totalPrompts q \<and> 30 \<le> maxLen \<longrightarrow>
            snd (increment maxLen now ok q) = None)"
proof -
  let ?cp = "canProceed (w_nowCanProceed w) b"
  let ?vp = "if truthy (Video_Prompt r) then Video_Prompt r else Prompt r"
  let ?vs = "video_section w (rec_id r) cfg (img # imgs) ?vp"
  let ?inc = "increment (w_maxStringLength w) (w_nowProgress w) True tracker"
  let ?run = "processPrompt w (Some b) tracker r base cfg"
  note tb = try_block_existing_calls [OF assms, where w = w and cfg = cfg and base = base]
  note tv = try_block_existing_video [OF assms, where w = w and cfg = cfg and base = base]
  have a: "generate_calls (snd (snd (snd ?run))) = 0"
  proof (cases "fst ?cp")
    case True
    from processPrompt_trace [OF True, of tracker r base cfg] tb(1) show ?thesis
      by (auto simp add: generate_calls_append)
  next
    case False
    then show ?thesis by (simp add: processPrompt_open)
  qed
  have b: "\<not> fst ?cp \<longrightarrow>
            ?run = (Inr (Failure (rec_id r) ''Circuit breaker open'' True), Some b, tracker, [])"
    by (simp add: processPrompt_open)
  have c: "fst ?cp \<and> \<not> enableVideo cfg \<and> snd ?inc = None \<longrightarrow>
            ?run = (Inr (Success (rec_id r) (int (length (img # imgs)))),
                    Some (recordSuccess (snd ?cp)), fst ?inc, [])"
  proof (intro impI, elim conjE)
    assume ok: "fst ?cp" and v: "\<not> enableVideo cfg" and inc: "snd ?inc = None"
    from processPrompt_try_succeeds [OF tb(3) [OF v] ok inc]
    show "?run = (Inr (Success (rec_id r) (int (length (img # imgs)))),
                  Some (recordSuccess (snd ?cp)), fst ?inc, [])" .
  qed
  have d: "fst ?cp \<and> 0 \<le> failures b \<longrightarrow> recordSuccess (snd ?cp) = b\<lparr>failures := 0\<rparr>"
    by (simp add: recordSuccess_after_canProceed)
  have e: "fst ?cp \<and> enableVideo cfg \<longrightarrow> take 1 (snd (snd (snd ?run))) = [GenerateVideo img ?vp]"
  proof (intro impI, elim conjE)
    assume ok: "fst ?cp" and v: "enableVideo cfg"
    from processPrompt_trace [OF ok, of tracker r base cfg] obtain extra
      where tr: "snd (snd (snd ?run)) = fst (try_block w r cfg base) @ extra" by blast
    from video_section_first_call [of w "rec_id r" cfg img imgs ?vp] obtain rest
      where "fst ?vs = GenerateVideo img ?vp # rest"
      by (cases "fst ?vs") simp_all
    with tr tv(1) [OF v] show "take 1 (snd (snd (snd ?run))) = [GenerateVideo img ?vp]"
      by simp
  qed
  have f: "fst ?cp \<and> enableVideo cfg \<and> snd ?vs = Inr () \<and> snd ?inc = None \<longrightarrow>
            ?run = (Inr (Success (rec_id r) (int (length (img # imgs)))),
                    Some (recordSuccess (snd ?cp)), fst ?inc, fst ?vs)"
  proof (intro impI, elim conjE)
    assume ok: "fst ?cp" and v: "enableVideo cfg" and out: "snd ?vs = Inr ()"
      and inc: "snd ?inc = None"
    from tv [OF v] out have "try_block w r cfg base = (fst ?vs, Inr (img # imgs))"
      by (simp add: prod_eq_iff)
    from processPrompt_try_succeeds [OF this ok inc]
    show "?run = (Inr (Success (rec_id r) (int (length (img # imgs)))),
                  Some (recordSuccess (snd ?cp)), fst ?inc, fst ?vs)" .
  qed
  have g: "w_saveVideoError w = Inr () \<longrightarrow> snd ?vs = Inr ()"
    by (simp add: video_section_outcome)
  have h: "fst ?cp \<and> enableVideo cfg \<and> snd ?vs = Inl m \<longrightarrow>
            ?run = catch_block w (rec_id r) (Some (snd ?cp)) tracker (fst ?vs) m"
  proof (intro impI, elim conjE)
    assume ok: "fst ?cp" and v: "enableVideo cfg" and out: "snd ?vs = Inl m"
    from tv [OF v] out have "try_block w r cfg base = (fst ?vs, Inl m)"
      by (simp add: prod_eq_iff)
    from processPrompt_try_fails [OF this ok]
    show "?run = catch_block w (rec_id r) (Some (snd ?cp)) tracker (fst ?vs) m" .
  qed
  have i: "0 \<le> processedPrompts q \<and> processedPrompts q < totalPrompts q \<and> 30 \<le> maxLen \<longrightarrow>
            snd (increment maxLen now ok q) = None"
    using increment_returns [of q maxLen now ok] by blast
  from a b c d e f g h i show ?thesis by blast
qed

theorem existing_images_skip_generation_witness:
  "processPrompt (world_with (\<lambda>n. Images []) (\<lambda>n. VResult None))
     (Some (recordFailures [1000, 1001] (SimpleCircuitBreaker_new 5 60000)))
     tracker_new job_done [] config_plain =
   (Inr (Success ''rec1'' 1),
    Some ((recordFailures [1000, 1001] (SimpleCircuitBreaker_new 5 60000))\<lparr>failures := 0\<rparr>),
    tracker_new\<lparr>processedPrompts := 1, successCount := 1, lastUpdate := 3000\<rparr>,
    []) \<and>
   processPrompt (world_with (\<lambda>n. Images []) (\<lambda>n. VResult None))
     (Some (recordFailures [1000, 1001, 1002, 1003, 1004] (SimpleCircuitBreaker_new 5 60000)))
     tracker_new job_done [] config_plain =
   (Inr (Failure ''rec1'' ''Circuit breaker open'' True),
    Some (recordFailures [1000, 1001, 1002, 1003, 1004] (SimpleCircuitBreaker_new 5 60000)),
    tracker_new, []) \<and>
   processPrompt (world_with (\<lambda>n. Images []) (\<lambda>n. VResult (Some ''https://cdn/v.mp4'')))
     (Some (recordFailures [1000, 1001] (SimpleCircuitBreaker_new 5 60000)))
     tracker_new job_done [] (config_plain\<lparr>enableVideo := True\<rparr>) =
   (Inr (Success ''rec1'' 1),
    Some ((recordFailures [1000, 1001] (SimpleCircuitBreaker_new 5 60000))\<lparr>failures := 0\<rparr>),
    tracker_new\<lparr>processedPrompts := 1, successCount := 1, lastUpdate := 3000\<rparr>,
    [GenerateVideo ''https://cdn/img1.png'' (Some ''a portrait''),
     Download ''https://cdn/v.mp4'' ''downloads/rec1_video.mp4'',
     StoreUpdate ''rec1'' [(''Generated_Videos'', FUrls [''https://cdn/v.mp4''])]])"
proof -
  let ?w = "world_with (\<lambda>n. Images []) (\<lambda>n. VResult None)"
  let ?wv = "world_with (\<lambda>n. Images []) (\<lambda>n. VResult (Some ''https://cdn/v.mp4''))"
  let ?b2 = "recordFailures [1000, 1001] (SimpleCircuitBreaker_new 5 60000)"
  let ?b5 = "recordFailures [1000, 1001, 1002, 1003, 1004] (SimpleCircuitBreaker_new 5 60000)"
  let ?cv = "config_plain\<lparr>enableVideo := True\<rparr>"
  let ?p1 = "tracker_new\<lparr>processedPrompts := 1, successCount := 1, lastUpdate := 3000\<rparr>"
  have img: "Generated_Images job_done = Some (''https://cdn/img1.png'' # [])"
    by (simp add: job_done_def)
  have ok2: "fst (canProceed (w_nowCanProceed ?w) ?b2)"
    and open5: "\<not> fst (canProceed (w_nowCanProceed ?w) ?b5)"
    and ok2v: "fst (canProceed (w_nowCanProceed ?wv) ?b2)"
    by code_simp+
  have nn: "0 \<le> failures ?b2"
    by (simp add: recordFailures_def recordFailure_fields SimpleCircuitBreaker_new_def)
  have cfg: "\<not> enableVideo config_plain" "enableVideo ?cv"
    by (simp_all add: config_plain_def)
  have inc: "snd (increment (w_maxStringLength ?w) (w_nowProgress ?w) True tracker_new) = None"
    "snd (increment (w_maxStringLength ?wv) (w_nowProgress ?wv) True tracker_new) = None"
    by (rule increment_returns; simp add: tracker_new_def world_with_def)+
  have e2: "fst (increment (w_maxStringLength ?w) (w_nowProgress ?w) True tracker_new) = ?p1"
    "fst (increment (w_maxStringLength ?wv) (w_nowProgress ?wv) True tracker_new) = ?p1"
    by (simp_all add: increment_def Let_def tracker_new_def world_with_def)
  have e3: "rec_id job_done = ''rec1''"
    by (simp add: job_done_def job_new_def)
  have vs: "video_section ?wv ''rec1'' ?cv [''https://cdn/img1.png'']
              (if truthy (Video_Prompt job_done) then Video_Prompt job_done else Prompt job_done) =
            ([GenerateVideo ''https://cdn/img1.png'' (Some ''a portrait''),
              Download ''https://cdn/v.mp4'' ''downloads/rec1_video.mp4'',
              StoreUpdate ''rec1'' [(''Generated_Videos'', FUrls [''https://cdn/v.mp4''])]],
             Inr ())"
    by code_simp
  note t1 = existing_images_skip_generation [OF img, of ?w ?b2 tracker_new "[]" config_plain]
  note t2 = existing_images_skip_generation [OF img, of ?w ?b5 tracker_new "[]" config_plain]
  note t3 = existing_images_skip_generation [OF img, of ?wv ?b2 tracker_new "[]" ?cv]
  from t1 ok2 cfg(1) inc(1) nn
  have r1: "processPrompt ?w (Some ?b2) tracker_new job_done [] config_plain =
              (Inr (Success ''rec1'' 1), Some (?b2\<lparr>failures := 0\<rparr>), ?p1, [])"
    by (simp add: e2 e3)
  from t2 open5
  have r2: "processPrompt ?w (Some ?b5) tracker_new job_done [] config_plain =
              (Inr (Failure ''rec1'' ''Circuit breaker open'' True), Some ?b5, tracker_new, [])"
    by (simp add: e3)
  from t3 ok2v cfg(2) inc(2) nn vs
  have r3: "processPrompt ?wv (Some ?b2) tracker_new job_done [] ?cv =
              (Inr (Success ''rec1'' 1), Some (?b2\<lparr>failures := 0\<rparr>), ?p1,
               [GenerateVideo ''https://cdn/img1.png'' (Some ''a portrait''),
                Download ''https://cdn/v.mp4'' ''downloads/rec1_video.mp4'',
                StoreUpdate ''rec1'' [(''Generated_Videos'', FUrls [''https://cdn/v.mp4''])]])"
    by (simp add: e2 e3)
  from r1 r2 r3 show ?thesis by blast
qed

text \<open>
  C3 as stated fails in four ways, each for a job that already has one image. With
  two failures on the breaker, processing the job resets the failure counter to 0.
  With the breaker open, the job is reported as a failure. With video generation
  enabled, the video provider is called. And with a tracker that has counted 101
  prompts on a page of 100, \<^verbatim>\<open>progressTracker.increment(true)\<close> throws inside the \<^verbatim>\<open>try\<close>
  block: the \<^verbatim>\<open>catch\<close> block records a failure on the breaker and writes an error text
  to the job, and \<^verbatim>\<open>progressTracker.increment(false)\<close> throws out of \<^verbatim>\<open>processPrompt\<close>.
\<close>

theorem existing_images_counterexample:
  "failures (recordFailures [1000, 1001] (SimpleCircuitBreaker_new 5 60000)) = 2 \<and>
   fst (snd (processPrompt (world_with (\<lambda>n. Images []) (\<lambda>n. VResult None))
     (Some (recordFailures [1000, 1001] (SimpleCircuitBreaker_new 5 60000)))
     tracker_new job_done [] config_plain)) =
   Some ((recordFailures [1000, 1001] (SimpleCircuitBreaker_new 5 60000))\<lparr>failures := 0\<rparr>) \<and>
   fst (processPrompt (world_with (\<lambda>n. Images []) (\<lambda>n. VResult None))
     (Some (recordFailures [1000, 1001, 1002, 1003, 1004] (SimpleCircuitBreaker_new 5 60000)))
     tracker_new job_done [] config_plain) =
   Inr (Failure ''rec1'' ''Circuit breaker open'' True) \<and>
   snd (snd (snd
     (processPrompt (world_with (\<lambda>n. Images []) (\<lambda>n. VResult (Some ''https://cdn/v.mp4'')))
        (Some (SimpleCircuitBreaker_new 5 60000))
        tracker_new job_done [] (config_plain\<lparr>enableVideo := True\<rparr>)))) =
   [GenerateVideo ''https://cdn/img1.png'' (Some ''a portrait''),
    Download ''https://cdn/v.mp4'' ''downloads/rec1_video.mp4'',
    StoreUpdate ''rec1'' [(''Generated_Videos'', FUrls [''https://cdn/v.mp4''])]] \<and>
   processPrompt (world_with (\<lambda>n. Images []) (\<lambda>n. VResult None))
     (Some (SimpleCircuitBreaker_new 5 60000)) tracker_page2 job_done [] config_plain =
   (Inl ''Invalid count value: -1'',
    Some ((SimpleCircuitBreaker_new 5 60000)\<lparr>failures := 1, lastFailure := Some 3000\<rparr>),
    tracker_page2\<lparr>processedPrompts := 103, successCount := 102, failCount := 1,
                  lastUpdate := 3000\<rparr>,
    [StoreUpdate ''rec1'' [(''Error Message'', FText ''Invalid count value: -1'')]])"
  by code_simp

section \<open>Properties of the concurrency limiter\<close>

lemma cl_inv_new: "0 \<le> m \<Longrightarrow> cl_inv (CLsystem_new m)"
  by (simp add: cl_inv_def CLsystem_new_def ConcurrencyLimiter_new_def)

lemma fifo_inv_new: "0 \<le> m \<Longrightarrow> fifo_inv (CLsystem_new m)"
  by (simp add: fifo_inv_def CLsystem_new_def ConcurrencyLimiter_new_def)

lemma try_enter_proj:
  "maxConcurrent (limiter (try_enter t s)) = maxConcurrent (limiter s)"
  "totalExecuted (limiter (try_enter t s)) = totalExecuted (limiter s)"
  "running (limiter (try_enter t s)) =
     (if maxConcurrent (limiter s) \<le> running (limiter s) then running (limiter s)
      else running (limiter s) + 1)"
  "queue (limiter (try_enter t s)) =
     (if maxConcurrent (limiter s) \<le> running (limiter s) then queue (limiter s) @ [t]
      else queue (limiter s))"
  "active (try_enter t s) =
     (if maxConcurrent (limiter s) \<le> running (limiter s) then active s else active s @ [t])"
  "acquired (try_enter t s) =
     (if maxConcurrent (limiter s) \<le> running (limiter s) then acquired s else acquired s @ [t])"
  "woken (try_enter t s) = woken s"
  "completed (try_enter t s) = completed s"
  "arrived (try_enter t s) = arrived s"
  by (simp_all add: try_enter_def Let_def)

lemma leave_proj:
  "maxConcurrent (limiter (leave t ok s)) = maxConcurrent (limiter s)"
  "totalExecuted (limiter (leave t ok s)) =
     (if ok then totalExecuted (limiter s) + 1 else totalExecuted (limiter s))"
  "running (limiter (leave t ok s)) = running (limiter s) - 1"
  "queue (limiter (leave t ok s)) = drop 1 (queue (limiter s))"
  "woken (leave t ok s) = woken s @ take 1 (queue (limiter s))"
  "active (leave t ok s) = removeAll t (active s)"
  "completed (leave t ok s) = completed s @ [t]"
  "arrived (leave t ok s) = arrived s"
  "acquired (leave t ok s) = acquired s"
  by (simp_all add: leave_def Let_def split: list.split)

lemma cl_step_cases:
  assumes "cl_step e s = Some s'"
  obtains (call) t where "e = Call t" "t \<notin> set (arrived s)"
      "s' = try_enter t (s\<lparr>arrived := arrived s @ [t]\<rparr>)"
    | (resume) t ts where "e = Resume" "woken s = t # ts" "s' = try_enter t (s\<lparr>woken := ts\<rparr>)"
    | (finish) t ok where "e = Finish t ok" "t \<in> set (active s)" "s' = leave t ok s"
  using assms by (cases e) (auto split: if_splits list.splits)

lemma cl_step_max:
  assumes "cl_step e s = Some s'"
  shows "maxConcurrent (limiter s') = maxConcurrent (limiter s)"
  using assms by (cases rule: cl_step_cases) (simp_all add: try_enter_proj leave_proj)

lemma length_removeAll_distinct:
  assumes "distinct xs" and "t \<in> set xs"
  shows "int (length (removeAll t xs)) = int (length xs) - 1"
proof -
  from assms have "length (removeAll t xs) = length xs - 1"
    by (simp add: distinct_remove1_removeAll [symmetric] length_remove1)
  moreover from assms(2) have "0 < length xs" by (cases xs) auto
  ultimately show ?thesis by (cases xs) auto
qed

lemma cl_inv_call:
  assumes "cl_inv s" and "t \<notin> set (arrived s)"
  shows "cl_inv (try_enter t (s\<lparr>arrived := arrived s @ [t]\<rparr>))"
proof -
  let ?s1 = "s\<lparr>arrived := arrived s @ [t]\<rparr>"
  from assms have fresh: "t \<notin> set (active s)" "t \<notin> set (woken s)"
    "t \<notin> set (queue (limiter s))" "t \<notin> set (completed s)"
    by (auto simp add: cl_inv_def)
  from assms(1) have d: "distinct (active s @ woken s @ queue (limiter s) @ completed s)"
    and st: "set (active s @ woken s @ queue (limiter s) @ completed s) = set (arrived s)"
    and run: "running (limiter s) = int (length (active s))"
    and le: "running (limiter s) \<le> maxConcurrent (limiter s)"
    and q: "queue (limiter s) \<noteq> [] \<longrightarrow>
              maxConcurrent (limiter s) \<le> running (limiter s) + int (length (woken s))"
    by (auto simp add: cl_inv_def)
  show ?thesis
  proof (cases "maxConcurrent (limiter s) \<le> running (limiter s)")
    case True
    have "distinct (active s @ woken s @ (queue (limiter s) @ [t]) @ completed s)"
      using d fresh by auto
    moreover have "set (active s @ woken s @ (queue (limiter s) @ [t]) @ completed s) =
                   set (arrived s @ [t])"
      using st by auto
    ultimately show ?thesis
      using True run le by (auto simp add: cl_inv_def try_enter_proj)
  next
    case False
    have "distinct ((active s @ [t]) @ woken s @ queue (limiter s) @ completed s)"
      using d fresh by auto
    moreover have "set ((active s @ [t]) @ woken s @ queue (limiter s) @ completed s) =
                   set (arrived s @ [t])"
      using st by auto
    ultimately show ?thesis
      using False run le q by (auto simp add: cl_inv_def try_enter_proj)
  qed
qed

lemma cl_inv_resume:
  assumes "cl_inv s" and "woken s = t # ts"
  shows "cl_inv (try_enter t (s\<lparr>woken := ts\<rparr>))"
proof -
  from assms have d: "distinct (active s @ (t # ts) @ queue (limiter s) @ completed s)"
    and st: "set (active s @ (t # ts) @ queue (limiter s) @ completed s) = set (arrived s)"
    and run: "running (limiter s) = int (length (active s))"
    and le: "running (limiter s) \<le> maxConcurrent (limiter s)"
    and q: "queue (limiter s) \<noteq> [] \<longrightarrow>
              maxConcurrent (limiter s) \<le> running (limiter s) + int (length (t # ts))"
    by (auto simp add: cl_inv_def)
  show ?thesis
  proof (cases "maxConcurrent (limiter s) \<le> running (limiter s)")
    case True
    have "distinct (active s @ ts @ (queue (limiter s) @ [t]) @ completed s)"
      using d by auto
    moreover have "set (active s @ ts @ (queue (limiter s) @ [t]) @ completed s) =
                   set (arrived s)"
      using st by auto
    ultimately show ?thesis
      using True run le by (auto simp add: cl_inv_def try_enter_proj)
  next
    case False
    have "distinct ((active s @ [t]) @ ts @ queue (limiter s) @ completed s)"
      using d by auto
    moreover have "set ((active s @ [t]) @ ts @ queue (limiter s) @ completed s) =
                   set (arrived s)"
      using st by auto
    ultimately show ?thesis
      using False run le q by (auto simp add: cl_inv_def try_enter_proj)
  qed
qed

lemma cl_inv_finish:
  assumes "cl_inv s" and "t \<in> set (active s)"
  shows "cl_inv (leave t ok s)"
proof -
  let ?q = "queue (limiter s)"
  from assms have d: "distinct (active s @ woken s @ ?q @ completed s)"
    and st: "set (active s @ woken s @ ?q @ completed s) = set (arrived s)"
    and run: "running (limiter s) = int (length (active s))"
    and le: "running (limiter s) \<le> maxConcurrent (limiter s)"
    and q: "?q \<noteq> [] \<longrightarrow>
              maxConcurrent (limiter s) \<le> running (limiter s) + int (length (woken s))"
    by (auto simp add: cl_inv_def)
  from d have da: "distinct (active s)" by simp
  note len = length_removeAll_distinct [OF da assms(2)]
  have split: "take 1 ?q @ drop 1 ?q = ?q" by simp
  have d1: "distinct (removeAll t (active s) @ (woken s @ take 1 ?q) @ drop 1 ?q @
                      (completed s @ [t]))"
  proof -
    have "distinct (removeAll t (active s) @ woken s @ ?q @ completed s @ [t])"
      using d assms(2) by (auto simp add: distinct_removeAll)
    then show ?thesis
      by (metis append.assoc split)
  qed
  have s1: "set (removeAll t (active s) @ (woken s @ take 1 ?q) @ drop 1 ?q @
                 (completed s @ [t])) = set (arrived s)"
  proof -
    have "set (removeAll t (active s) @ woken s @ ?q @ completed s @ [t]) = set (arrived s)"
      using st assms(2) by auto
    then show ?thesis
      by (metis append.assoc split)
  qed
  have q1: "drop 1 ?q \<noteq> [] \<longrightarrow>
              maxConcurrent (limiter s) \<le>
                running (limiter s) - 1 + int (length (woken s @ take 1 ?q))"
    using q by (cases ?q) auto
  show ?thesis
    using d1 s1 q1 run le len by (auto simp add: cl_inv_def leave_proj)
qed

lemma cl_step_inv:
  assumes "cl_step e s = Some s'" and "cl_inv s"
  shows "cl_inv s'"
  using assms(1)
proof (cases rule: cl_step_cases)
  case (call t)
  with assms(2) show ?thesis by (simp add: cl_inv_call)
next
  case (resume t ts)
  with assms(2) show ?thesis by (simp add: cl_inv_resume)
next
  case (finish t ok)
  with assms(2) show ?thesis by (simp add: cl_inv_finish)
qed

lemma cl_run_inv:
  assumes "cl_run es s = Some s'" and "cl_inv s"
  shows "cl_inv s'"
  using assms
proof (induction es arbitrary: s)
  case Nil
  then show ?case by simp
next
  case (Cons e es)
  from Cons.prems(1) obtain s1 where step: "cl_step e s = Some s1" and rest: "cl_run es s1 = Some s'"
    by (auto split: option.splits)
  from Cons.IH [OF rest cl_step_inv [OF step Cons.prems(2)]] show ?case .
qed

lemma fifo_step:
  assumes "cl_step e s = Some s'" and "cl_inv s" and "fifo_inv s"
    and "is_call e \<longrightarrow> woken s = []"
  shows "fifo_inv s'"
  using assms(1)
proof (cases rule: cl_step_cases)
  case (call t)
  with assms(4) have w: "woken s = []" by simp
  from assms(3) w have arr: "arrived s = acquired s @ queue (limiter s)"
    and room: "running (limiter s) \<le> maxConcurrent (limiter s)"
    by (simp_all add: fifo_inv_def)
  show ?thesis
  proof (cases "maxConcurrent (limiter s) \<le> running (limiter s)")
    case True
    with arr room w show ?thesis
      by (simp add: call(3) fifo_inv_def try_enter_proj)
  next
    case False
    with assms(2) w have "queue (limiter s) = []"
      by (auto simp add: cl_inv_def)
    with False arr w show ?thesis
      by (simp add: call(3) fifo_inv_def try_enter_proj)
  qed
next
  case (resume t ts)
  from assms(3) resume(2) have arr: "arrived s = acquired s @ (t # ts) @ queue (limiter s)"
    and room: "running (limiter s) + 1 + int (length ts) \<le> maxConcurrent (limiter s)"
    by (simp_all add: fifo_inv_def)
  from room have free: "\<not> maxConcurrent (limiter s) \<le> running (limiter s)" by simp
  from arr room free show ?thesis
    by (simp add: resume(3) fifo_inv_def try_enter_proj)
next
  case (finish t ok)
  let ?q = "queue (limiter s)"
  from assms(3) have arr: "arrived s = acquired s @ woken s @ ?q"
    and room: "running (limiter s) + int (length (woken s)) \<le> maxConcurrent (limiter s)"
    by (simp_all add: fifo_inv_def)
  have "arrived s = acquired s @ (woken s @ take 1 ?q) @ drop 1 ?q"
    using arr by simp
  moreover have "running (limiter s) - 1 + int (length (woken s @ take 1 ?q))
                   \<le> maxConcurrent (limiter s)"
    using room by (cases ?q) auto
  ultimately show ?thesis
    by (simp add: finish(3) fifo_inv_def leave_proj)
qed

lemma fifo_run:
  assumes "cl_run es s = Some s'" and "no_late_call es s" and "cl_inv s" and "fifo_inv s"
  shows "fifo_inv s'"
  using assms
proof (induction es arbitrary: s)
  case Nil
  then show ?case by simp
next
  case (Cons e es)
  from Cons.prems(1) obtain s1 where step: "cl_step e s = Some s1" and rest: "cl_run es s1 = Some s'"
    by (auto split: option.splits)
  from Cons.prems(2) step have late: "is_call e \<longrightarrow> woken s = []" and nl: "no_late_call es s1"
    by (cases e; simp)+
  from fifo_step [OF step Cons.prems(3,4) late] cl_step_inv [OF step Cons.prems(3)]
    Cons.IH [OF rest nl]
  show ?case by simp
qed

lemma work_left_step:
  assumes "cl_step e s = Some s'" and "\<not> is_call e"
  shows "work_left s' + 1 \<le> work_left s"
  using assms(1)
proof (cases rule: cl_step_cases)
  case (call t)
  with assms(2) show ?thesis by simp
next
  case (resume t ts)
  then show ?thesis
    by (simp add: work_left_def try_enter_proj)
next
  case (finish t ok)
  from finish(2) have "length (removeAll t (active s)) < length (active s)"
    by (rule length_removeAll_less)
  then show ?thesis
    by (cases "queue (limiter s)") (simp_all add: finish(3) work_left_def leave_proj)
qed

lemma work_left_run:
  assumes "cl_run es s = Some s'" and "\<forall>e \<in> set es. \<not> is_call e"
  shows "length es + work_left s' \<le> work_left s"
  using assms
proof (induction es arbitrary: s)
  case Nil
  then show ?case by simp
next
  case (Cons e es)
  from Cons.prems(1) obtain s1 where step: "cl_step e s = Some s1" and rest: "cl_run es s1 = Some s'"
    by (auto split: option.splits)
  from Cons.prems(2) have "\<not> is_call e" and "\<forall>e \<in> set es. \<not> is_call e" by simp_all
  with work_left_step [OF step] Cons.IH [OF rest] show ?case by simp
qed

lemma cl_run_max:
  assumes "cl_run es s = Some s'"
  shows "maxConcurrent (limiter s') = maxConcurrent (limiter s)"
  using assms
proof (induction es arbitrary: s)
  case Nil
  then show ?case by simp
next
  case (Cons e es)
  from Cons.prems obtain s1 where step: "cl_step e s = Some s1" and rest: "cl_run es s1 = Some s'"
    by (auto split: option.splits)
  from cl_step_max [OF step] Cons.IH [OF rest] show ?case by simp
qed

lemma quiescent_all_completed:
  assumes "cl_inv s" and "1 \<le> maxConcurrent (limiter s)" and "active s = []" and "woken s = []"
  shows "queue (limiter s) = []" and "set (completed s) = set (arrived s)"
proof -
  from assms show q: "queue (limiter s) = []"
    by (auto simp add: cl_inv_def)
  from assms(1,3,4) q show "set (completed s) = set (arrived s)"
    by (auto simp add: cl_inv_def)
qed

text \<open>
  C8 (as amended). Take a limiter with limit \<open>m \<ge> 1\<close> and any sequence of turns (a task
  calls \<^verbatim>\<open>run\<close>, a woken waiter resumes, the function of an active task settles) from
  its creation. Then \<^verbatim>\<open>running\<close> is the number of tasks inside their function, between
  0 and \<open>m\<close>. A task whose function throws leaves as one that returns: \<^verbatim>\<open>running\<close> drops
  by one, the first queued waiter is woken and the task's \<^verbatim>\<open>run\<close> settles. If no task
  called \<^verbatim>\<open>run\<close> while a woken waiter had not yet resumed, the tasks have acquired their
  slots, been woken and been queued in the order of their arrival. Without further
  calls of \<^verbatim>\<open>run\<close>, at most \<open>work_left\<close> more turns can happen, and when none can happen
  any more (no task active, no waiter woken) every task that called \<^verbatim>\<open>run\<close> has completed.
\<close>

theorem concurrency_limiter_guarantees:
  assumes "1 \<le> m" and "cl_run es (CLsystem_new m) = Some s"
  shows "0 \<le> running (limiter s) \<and> running (limiter s) \<le> m \<and>
         running (limiter s) = int (length (active s)) \<and>
         (\<forall>t \<in> set (active s).
            running (limiter (leave t False s)) = running (limiter s) - 1 \<and>
            woken (leave t False s) = woken s @ take 1 (queue (limiter s)) \<and>
            queue (limiter (leave t False s)) = drop 1 (queue (limiter s)) \<and>
            t \<in> set (completed (leave t False s)) \<and>
            cl_step (Finish t False) s = Some (leave t False s)) \<and>
         (no_late_call es (CLsystem_new m) \<longrightarrow>
            arrived s = acquired s @ woken s @ queue (limiter s)) \<and>
         (\<forall>es' s'. (\<forall>e \<in> set es'. \<not> is_call e) \<and> cl_run es' s = Some s' \<longrightarrow>
            length es' + work_left s' \<le> work_left s) \<and>
         (active s = [] \<and> woken s = [] \<longrightarrow>
            queue (limiter s) = [] \<and> set (completed s) = set (arrived s))"
proof -
  from assms(1) have m0: "0 \<le> m" by simp
  have mx: "maxConcurrent (limiter s) = m"
    using cl_run_max [OF assms(2)] by (simp add: CLsystem_new_def ConcurrencyLimiter_new_def)
  have inv: "cl_inv s"
    by (rule cl_run_inv [OF assms(2) cl_inv_new [OF m0]])
  have a: "0 \<le> running (limiter s) \<and> running (limiter s) \<le> m \<and>
           running (limiter s) = int (length (active s))"
    using inv mx by (auto simp add: cl_inv_def)
  have b: "\<forall>t \<in> set (active s).
            running (limiter (leave t False s)) = running (limiter s) - 1 \<and>
            woken (leave t False s) = woken s @ take 1 (queue (limiter s)) \<and>
            queue (limiter (leave t False s)) = drop 1 (queue (limiter s)) \<and>
            t \<in> set (completed (leave t False s)) \<and>
            cl_step (Finish t False) s = Some (leave t False s)"
    by (simp add: leave_proj)
  have c: "no_late_call es (CLsystem_new m) \<longrightarrow>
            arrived s = acquired s @ woken s @ queue (limiter s)"
    using fifo_run [OF assms(2) _ cl_inv_new [OF m0] fifo_inv_new [OF m0]]
    by (auto simp add: fifo_inv_def)
  have d: "\<forall>es' s'. (\<forall>e \<in> set es'. \<not> is_call e) \<and> cl_run es' s = Some s' \<longrightarrow>
            length es' + work_left s' \<le> work_left s"
    using work_left_run by blast
  have e: "active s = [] \<and> woken s = [] \<longrightarrow>
            queue (limiter s) = [] \<and> set (completed s) = set (arrived s)"
    using quiescent_all_completed [OF inv] assms(1) mx by simp
  from a b c d e show ?thesis by blast
qed

theorem concurrency_limiter_guarantees_witness:
  "map_option (\<lambda>s. (running (limiter s), active s, arrived s, acquired s, completed s))
     (cl_run [Call 1, Call 2, Call 3, Finish 1 False, Resume, Finish 2 True, Finish 3 True]
        (CLsystem_new 2))
   = Some (0, [], [1, 2, 3], [1, 2, 3], [1, 2, 3]) \<and>
   no_late_call [Call 1, Call 2, Call 3, Finish 1 False, Resume, Finish 2 True, Finish 3 True]
     (CLsystem_new 2)"
proof -
  let ?es = "[Call 1, Call 2, Call 3, Finish 1 False, Resume, Finish 2 True, Finish 3 True]"
  have ev: "map_option (\<lambda>s. (running (limiter s), active s, woken s, arrived s, completed s))
              (cl_run ?es (CLsystem_new 2)) = Some (0, [], [], [1, 2, 3], [1, 2, 3])"
    by code_simp
  have nl: "no_late_call ?es (CLsystem_new 2)"
    by code_simp
  from ev obtain s where run: "cl_run ?es (CLsystem_new 2) = Some s"
    by (cases "cl_run ?es (CLsystem_new 2)") simp_all
  from ev run have fields: "running (limiter s) = 0" "active s = []" "woken s = []"
    "arrived s = [1, 2, 3]" "completed s = [1, 2, 3]"
    by simp_all
  have m: "(1::int) \<le> 2" by simp
  from concurrency_limiter_guarantees [OF m run] nl fields
  have "arrived s = acquired s @ woken s @ queue (limiter s)" "queue (limiter s) = []"
    by simp_all
  with fields have "acquired s = [1, 2, 3]" by simp
  with fields nl show ?thesis
    unfolding run by simp
qed

text \<open>
  C8 as stated fails in two ways. With limit 1, task 4 calls \<^verbatim>\<open>run\<close> after task 1 has
  released its slot and woken waiter 2, but before waiter 2 resumes: task 4 takes the
  slot, waiter 2 goes to the end of the queue, and waiter 3, which arrived after
  waiter 2, gets a slot before it. With limit 0, a task that calls \<^verbatim>\<open>run\<close> is queued
  with no task active and no waiter woken, so it never runs.
\<close>

theorem concurrency_limiter_counterexample:
  "map_option (\<lambda>s. (arrived s, acquired s))
     (cl_run [Call 1, Call 2, Call 3, Finish 1 True, Call 4, Resume, Finish 4 True, Resume,
              Finish 3 True, Resume, Finish 2 True] (CLsystem_new 1))
   = Some ([1, 2, 3, 4], [1, 4, 3, 2]) \<and>
   map_option (\<lambda>s. (active s, woken s, queue (limiter s), completed s))
     (cl_run [Call 1] (CLsystem_new 0))
   = Some ([], [], [1], [])"
  by code_simp

end
